theory Spec2Isabelle
  imports Complex_Main "HOL-Library.Word" "HOL-Library.Log_Nat"
begin

section \<open>Strings\<close>

text \<open>
  \<^verbatim>\<open>s.startsWith(p)\<close> and \<^verbatim>\<open>s.split(sep)\<close> for a one-character separator. A split
  never returns the empty array: the empty string splits into one empty segment.
\<close>

definition startsWith :: "string \<Rightarrow> string \<Rightarrow> bool" where
  "startsWith s p = (take (length p) s = p)"

fun split :: "char \<Rightarrow> string \<Rightarrow> string list" where
  "split sep [] = [[]]"
| "split sep (c # cs) =
     (if c = sep then [] # split sep cs
      else (case split sep cs of
              [] \<Rightarrow> [[c]]
            | seg # segs \<Rightarrow> (c # seg) # segs))"

fun findIndex :: "('a \<Rightarrow> bool) \<Rightarrow> 'a list \<Rightarrow> nat option" where
  "findIndex P [] = None"
| "findIndex P (x # xs) = (if P x then Some 0 else map_option Suc (findIndex P xs))"

section \<open>The tree model (types.ts)\<close>

text \<open>
  A browser \<^verbatim>\<open>Blob\<close> (its bytes and its media type, the field \<^verbatim>\<open>type\<close>) and a
  \<^verbatim>\<open>File\<close>, which is a blob with a base name and the relative path the directory picker
  gave it.
\<close>

record Blob =
  blob_bytes :: string
  blob_type :: string

record File = Blob +
  file_name :: string
  webkitRelativePath :: string

text \<open>A blob URL, tagged with the bytes it was created from.\<close>

datatype objectURL = ObjectURL string

datatype node_type = TFile | TFolder

text \<open>
  \<^verbatim>\<open>FileNode\<close>. The optional fields \<^verbatim>\<open>file\<close>, \<^verbatim>\<open>url\<close> and \<^verbatim>\<open>isDeleted\<close> are options
  (\<open>None\<close> is \<^verbatim>\<open>undefined\<close>). The \<^verbatim>\<open>parent\<close> back-reference is the position of the
  node in the tree: the parent of a node is the node whose children hold it.
\<close>

datatype FileNode = FileNode
  (fn_id: string) (fn_name: string) (fn_path: string) (fn_type: node_type)
  (fn_children: "FileNode list") (fn_file: "File option") (fn_url: "objectURL option")
  (fn_isDeleted: "bool option")

fun setChildren :: "FileNode list \<Rightarrow> FileNode \<Rightarrow> FileNode" where
  "setChildren cs (FileNode i nm p t old f u d) = FileNode i nm p t cs f u d"

text \<open>All nodes of a tree, depth first, a node before its children, children in stored order.\<close>

fun nodes :: "FileNode \<Rightarrow> FileNode list" where
  "nodes (FileNode i nm p t cs f u d) = FileNode i nm p t cs f u d # concat (map nodes cs)"

section \<open>The Ingestion Builder (parseFilesToTree)\<close>

definition createObjectURL :: "'a Blob_scheme \<Rightarrow> objectURL" where
  "createObjectURL blob = ObjectURL (blob_bytes blob)"

definition isFolderNamed :: "string \<Rightarrow> FileNode \<Rightarrow> bool" where
  "isFolderNamed part child = (fn_name child = part \<and> fn_type child = TFolder)"

definition newFileNode :: "File \<Rightarrow> FileNode \<Rightarrow> string \<Rightarrow> FileNode" where
  "newFileNode file currentNode part =
     FileNode (fn_path currentNode @ ''/'' @ part) part (webkitRelativePath file) TFile []
       (Some file) (Some (createObjectURL file)) (Some False)"

definition newFolderNode :: "FileNode \<Rightarrow> string \<Rightarrow> FileNode" where
  "newFolderNode currentNode part =
     FileNode (fn_path currentNode @ ''/'' @ part) part
       (if fn_path currentNode \<noteq> [] then fn_path currentNode @ ''/'' @ part else part)
       TFolder [] None None None"

text \<open>
  The inner \<^verbatim>\<open>pathParts.forEach\<close>, with the cursor \<^verbatim>\<open>currentNode\<close>: the last part is
  pushed as a file node (and onto \<^verbatim>\<open>allImages\<close>); any other part moves the cursor into
  the first folder child of that name, created and pushed when there is none. The source
  mutates the nodes under the cursor; the model returns the cursor's node rebuilt, and the
  file nodes pushed onto \<^verbatim>\<open>allImages\<close>. The list of parts is never empty (a split has
  at least one segment); the first equation is there for totality.
\<close>

fun walkParts :: "File \<Rightarrow> FileNode \<Rightarrow> string list \<Rightarrow> FileNode \<times> FileNode list" where
  "walkParts file currentNode [] = (currentNode, [])"
| "walkParts file currentNode [part] =
     (let fileNode = newFileNode file currentNode part
      in (setChildren (fn_children currentNode @ [fileNode]) currentNode, [fileNode]))"
| "walkParts file currentNode (part # rest) =
     (case findIndex (isFolderNamed part) (fn_children currentNode) of
        None \<Rightarrow>
          (let (folderNode, pushed) = walkParts file (newFolderNode currentNode part) rest
           in (setChildren (fn_children currentNode @ [folderNode]) currentNode, pushed))
      | Some k \<Rightarrow>
          (let (folderNode, pushed) = walkParts file (fn_children currentNode ! k) rest
           in (setChildren ((fn_children currentNode)[k := folderNode]) currentNode, pushed)))"

definition pathPartsOf :: "File \<Rightarrow> string list" where
  "pathPartsOf file =
     (if webkitRelativePath file \<noteq> [] then split CHR ''/'' (webkitRelativePath file)
      else [file_name file])"

text \<open>The body of the outer \<^verbatim>\<open>forEach\<close>, on the pair of the root and \<^verbatim>\<open>allImages\<close>.\<close>

definition ingest :: "File \<Rightarrow> FileNode \<times> FileNode list \<Rightarrow> FileNode \<times> FileNode list" where
  "ingest file st =
     (if startsWith (file_name file) ''.'' then st
      else if \<not> startsWith (blob_type file) ''image/'' then st
      else (let (root, pushed) = walkParts file (fst st) (pathPartsOf file)
            in (root, snd st @ pushed)))"

definition emptyRoot :: FileNode where
  "emptyRoot = FileNode ''root'' ''Root'' [] TFolder [] None None None"

definition parseFilesToTree :: "File list \<Rightarrow> FileNode \<times> FileNode list" where
  "parseFilesToTree files = fold ingest files (emptyRoot, [])"

section \<open>JavaScript numbers\<close>

text \<open>
  A JavaScript number is an IEEE 754 double. The numbers of the transcoder are positive
  and far inside the normal range, so a double is the rational it denotes, and an
  arithmetic operation is the exact operation followed by \<open>fl\<close>, rounding to the nearest
  double: 53 significant bits, ties to the even significand. \<open>expo x\<close> is the binary
  exponent of a positive \<open>x\<close>, the \<open>e\<close> with \<open>2^e \<le> x < 2^(e+1)\<close>.
\<close>

definition rne :: "rat \<Rightarrow> int" where
  "rne x =
     (let n = \<lfloor>x\<rfloor>; r = x - of_int n
      in if r < 1 / 2 then n else if 1 / 2 < r then n + 1 else if even n then n else n + 1)"

definition expo :: "rat \<Rightarrow> int" where
  "expo x =
     (let k = bitlen (fst (quotient_of x)) - bitlen (snd (quotient_of x))
      in if 2 powi k \<le> x then k else k - 1)"

definition fl :: "rat \<Rightarrow> rat" where
  "fl x =
     (if x = 0 then 0
      else (let q = expo \<bar>x\<bar> - 52
            in sgn x * of_int (rne (\<bar>x\<bar> / 2 powi q)) * 2 powi q))"

text \<open>
  \<^verbatim>\<open>Math.round\<close>: the nearest integer, a tie going up. It is exact on a double.
\<close>

definition Math_round :: "rat \<Rightarrow> rat" where
  "Math_round x = of_int \<lfloor>x + 1 / 2\<rfloor>"

section \<open>The Image Transcoder (processImageForExport)\<close>

text \<open>How a call ends: it returns (a promise resolves), or it throws (a promise rejects).\<close>

datatype 'a completion = Normal 'a | Throw

text \<open>
  What \<^verbatim>\<open>reader.readAsDataURL(file)\<close> does: it raises at the call (then the executor of
  the promise throws and the promise rejects), or the reader fires \<^verbatim>\<open>onerror\<close>, or it
  fires \<^verbatim>\<open>onload\<close> with the data URL of the bytes.
\<close>

datatype read_result = ReadRaises | ReadError | ReadLoaded string

text \<open>
  The browser, as far as the codec calls it:
  \<^item> \<open>readAsDataURL\<close>: the file reader;
  \<^item> \<open>decodeImage\<close>: assigning \<^verbatim>\<open>img.src\<close>; \<open>None\<close> fires \<^verbatim>\<open>img.onerror\<close>, \<open>Some (w, h)\<close> fires
    \<^verbatim>\<open>img.onload\<close> with \<^verbatim>\<open>img.width = w\<close> and \<^verbatim>\<open>img.height = h\<close> (both \<^verbatim>\<open>unsigned long\<close>);
  \<^item> \<open>getContext\<close>: whether \<^verbatim>\<open>canvas.getContext('2d')\<close> of a canvas of that width and height
    is not null;
  \<^item> \<open>toDataURL\<close>: the image of that source drawn on a canvas of that width and height
    with high quality smoothing, encoded by \<^verbatim>\<open>canvas.toDataURL('image/jpeg', 0.85)\<close>;
  \<^item> \<open>atob\<close>: base64 decoding, \<open>None\<close> when it raises.
\<close>

record host =
  readAsDataURL :: "File \<Rightarrow> read_result"
  decodeImage :: "string \<Rightarrow> (32 word \<times> 32 word) option"
  getContext :: "nat \<Rightarrow> nat \<Rightarrow> bool"
  toDataURL :: "string \<Rightarrow> nat \<Rightarrow> nat \<Rightarrow> string"
  atob :: "string \<Rightarrow> string option"

definition SHORT_EDGE_TARGET :: rat where
  "SHORT_EDGE_TARGET = 1024"

text \<open>
  The "Smart HD Scaling" of \<^verbatim>\<open>img.onload\<close>: the width and height given to the canvas, for
  an image of width \<open>imgWidth\<close> and height \<open>imgHeight\<close>.
\<close>

definition exportSize :: "32 word \<Rightarrow> 32 word \<Rightarrow> rat \<times> rat" where
  "exportSize imgWidth imgHeight =
     (let width = of_nat (unat imgWidth);
          height = of_nat (unat imgHeight);
          shortEdge = min width height
      in if shortEdge > SHORT_EDGE_TARGET then
           (let scale = fl (SHORT_EDGE_TARGET / shortEdge)
            in (Math_round (fl (width * scale)), Math_round (fl (height * scale))))
         else (width, height))"

text \<open>
  \<^verbatim>\<open>processImageForExport\<close>, on a browser where the calls made inside \<^verbatim>\<open>img.onload\<close>
  (\<^verbatim>\<open>getContext\<close>, \<^verbatim>\<open>drawImage\<close>, \<^verbatim>\<open>toDataURL\<close>) return: how the promise settles. The
  browsers where one of them raises are the subject of the section on the event handlers
  below.
\<close>

definition processImageForExport :: "host \<Rightarrow> File \<Rightarrow> string completion" where
  "processImageForExport h file =
     (case readAsDataURL h file of
        ReadRaises \<Rightarrow> Throw
      | ReadError \<Rightarrow> Normal []
      | ReadLoaded src \<Rightarrow>
          (case decodeImage h src of
             None \<Rightarrow> Normal []
           | Some (imgWidth, imgHeight) \<Rightarrow>
               (let (width, height) = exportSize imgWidth imgHeight;
                    canvasWidth = nat \<lfloor>width\<rfloor>;
                    canvasHeight = nat \<lfloor>height\<rfloor>
                in if getContext h canvasWidth canvasHeight
                   then Normal (toDataURL h src canvasWidth canvasHeight)
                   else Normal [])))"

section \<open>The Snapshot Serializer (serializeTree)\<close>

datatype SerializedNode = SerializedNode
  (sn_id: string) (sn_name: string) (sn_path: string) (sn_type: node_type)
  (sn_children: "SerializedNode list") (sn_thumbnailData: "string option")
  (sn_isDeleted: "bool option")

fun snodes :: "SerializedNode \<Rightarrow> SerializedNode list" where
  "snodes (SerializedNode i nm p t cs th d) =
     SerializedNode i nm p t cs th d # concat (map snodes cs)"

text \<open>
  What the walk does that a caller can observe, in the order it happens: a transcode of a
  file has completed, the progress callback is called. The walk threads the caller's
  state, which the callback updates, and the log of these events.
\<close>

datatype event = Transcoded File | Progress

text \<open>
  The block \<^verbatim>\<open>if (node.type === 'file' && node.file) { ... }\<close> of \<^verbatim>\<open>serializeTree\<close>: the
  awaited transcode inside \<^verbatim>\<open>try\<close> (a rejection is caught and leaves \<^verbatim>\<open>thumbnailData\<close>
  unset), then the callback when there is one. It returns the \<^verbatim>\<open>thumbnailData\<close> of the
  output.
\<close>

definition transcodeStep ::
  "host \<Rightarrow> ('s \<Rightarrow> 's) option \<Rightarrow> node_type \<Rightarrow> File option \<Rightarrow> 's \<times> event list \<Rightarrow>
   string option \<times> ('s \<times> event list)" where
  "transcodeStep h onProgress t file st =
     (case (t, file) of
        (TFile, Some f) \<Rightarrow>
          (let thumbnailData = (case processImageForExport h f of
                                  Normal payload \<Rightarrow> Some payload
                                | Throw \<Rightarrow> None);
               st1 = (fst st, snd st @ [Transcoded f])
           in (thumbnailData,
               (case onProgress of
                  Some callback \<Rightarrow> (callback (fst st1), snd st1 @ [Progress])
                | None \<Rightarrow> st1)))
      | _ \<Rightarrow> (None, st))"

fun serializeTree ::
  "host \<Rightarrow> ('s \<Rightarrow> 's) option \<Rightarrow> FileNode \<Rightarrow> 's \<times> event list \<Rightarrow>
   SerializedNode \<times> ('s \<times> event list)"
and serializeChildren ::
  "host \<Rightarrow> ('s \<Rightarrow> 's) option \<Rightarrow> FileNode list \<Rightarrow> 's \<times> event list \<Rightarrow>
   SerializedNode list \<times> ('s \<times> event list)" where
  "serializeTree h onProgress (FileNode i nm p t cs f u d) st =
     (let (thumbnailData, st1) = transcodeStep h onProgress t f st;
          (children, st2) = serializeChildren h onProgress cs st1
      in (SerializedNode i nm p t children thumbnailData d, st2))"
| "serializeChildren h onProgress [] st = ([], st)"
| "serializeChildren h onProgress (child # rest) st =
     (let (s, st1) = serializeTree h onProgress child st;
          (ss, st2) = serializeChildren h onProgress rest st1
      in (s # ss, st2))"

text \<open>
  The progress callback of \<^verbatim>\<open>handleGenerateSnapshot\<close> (ShareModal), on its counter
  \<^verbatim>\<open>processedCount\<close>.
\<close>

definition countProcessed :: "nat \<Rightarrow> nat" where
  "countProcessed processedCount = processedCount + 1"

section \<open>Exceptions inside the event handlers\<close>

text \<open>
  The promise of \<^verbatim>\<open>processImageForExport\<close> is made with \<^verbatim>\<open>resolve\<close> alone, and the body of
  \<^verbatim>\<open>img.onload\<close> has no \<^verbatim>\<open>try\<close>. That body runs as an event handler of the browser, after
  the executor has returned: an exception raised there, by \<^verbatim>\<open>canvas.getContext\<close>,
  \<^verbatim>\<open>ctx.drawImage\<close> or \<^verbatim>\<open>canvas.toDataURL\<close>, reaches neither the promise nor the \<^verbatim>\<open>try\<close> of
  \<^verbatim>\<open>serializeTree\<close>. Nothing calls \<^verbatim>\<open>resolve\<close> any more and the promise stays pending.

  A \<open>browser\<close> is a \<open>host\<close> that also says which of these three calls raise, on a canvas of
  the given width and height and, for the last two, the image of the given source.
  \<open>processImageForExport_promise\<close> is the same function on such a browser: the state its
  promise ends in.
\<close>

datatype 'a promise = Settled "'a completion" | Pending

record browser = host +
  getContextRaises :: "nat \<Rightarrow> nat \<Rightarrow> bool"
  drawImageRaises :: "string \<Rightarrow> nat \<Rightarrow> nat \<Rightarrow> bool"
  toDataURLRaises :: "string \<Rightarrow> nat \<Rightarrow> nat \<Rightarrow> bool"

definition processImageForExport_promise :: "browser \<Rightarrow> File \<Rightarrow> string promise" where
  "processImageForExport_promise b file =
     (case readAsDataURL b file of
        ReadRaises \<Rightarrow> Settled Throw
      | ReadError \<Rightarrow> Settled (Normal [])
      | ReadLoaded src \<Rightarrow>
          (case decodeImage b src of
             None \<Rightarrow> Settled (Normal [])
           | Some (imgWidth, imgHeight) \<Rightarrow>
               (let (width, height) = exportSize imgWidth imgHeight;
                    canvasWidth = nat \<lfloor>width\<rfloor>;
                    canvasHeight = nat \<lfloor>height\<rfloor>
                in if getContextRaises b canvasWidth canvasHeight then Pending
                   else if getContext b canvasWidth canvasHeight
                   then if drawImageRaises b src canvasWidth canvasHeight then Pending
                        else if toDataURLRaises b src canvasWidth canvasHeight then Pending
                        else Settled (Normal (toDataURL b src canvasWidth canvasHeight))
                   else Settled (Normal []))))"

text \<open>
  An \<^verbatim>\<open>await\<close> on a pending promise never resumes, so the asynchronous \<^verbatim>\<open>serializeTree\<close>
  either returns its node or never returns. \<open>serializeTree_promise\<close> is the walk on a
  browser: its result, and the caller's state and the log of events at its end or at the
  \<^verbatim>\<open>await\<close> where it stays.
\<close>

datatype 'a run = Returns 'a | NeverReturns

definition transcodeStep_promise ::
  "browser \<Rightarrow> ('s \<Rightarrow> 's) option \<Rightarrow> node_type \<Rightarrow> File option \<Rightarrow> 's \<times> event list \<Rightarrow>
   string option run \<times> ('s \<times> event list)" where
  "transcodeStep_promise b onProgress t file st =
     (case (t, file) of
        (TFile, Some f) \<Rightarrow>
          (case processImageForExport_promise b f of
             Pending \<Rightarrow> (NeverReturns, st)
           | Settled c \<Rightarrow>
               (let thumbnailData = (case c of Normal payload \<Rightarrow> Some payload | Throw \<Rightarrow> None);
                    st1 = (fst st, snd st @ [Transcoded f])
                in (Returns thumbnailData,
                    (case onProgress of
                       Some callback \<Rightarrow> (callback (fst st1), snd st1 @ [Progress])
                     | None \<Rightarrow> st1))))
      | _ \<Rightarrow> (Returns None, st))"

fun serializeTree_promise ::
  "browser \<Rightarrow> ('s \<Rightarrow> 's) option \<Rightarrow> FileNode \<Rightarrow> 's \<times> event list \<Rightarrow>
   SerializedNode run \<times> ('s \<times> event list)"
and serializeChildren_promise ::
  "browser \<Rightarrow> ('s \<Rightarrow> 's) option \<Rightarrow> FileNode list \<Rightarrow> 's \<times> event list \<Rightarrow>
   SerializedNode list run \<times> ('s \<times> event list)" where
  "serializeTree_promise b onProgress (FileNode i nm p t cs f u d) st =
     (case transcodeStep_promise b onProgress t f st of
        (NeverReturns, st1) \<Rightarrow> (NeverReturns, st1)
      | (Returns thumbnailData, st1) \<Rightarrow>
          (case serializeChildren_promise b onProgress cs st1 of
             (NeverReturns, st2) \<Rightarrow> (NeverReturns, st2)
           | (Returns children, st2) \<Rightarrow>
               (Returns (SerializedNode i nm p t children thumbnailData d), st2)))"
| "serializeChildren_promise b onProgress [] st = (Returns [], st)"
| "serializeChildren_promise b onProgress (child # rest) st =
     (case serializeTree_promise b onProgress child st of
        (NeverReturns, st1) \<Rightarrow> (NeverReturns, st1)
      | (Returns s, st1) \<Rightarrow>
          (case serializeChildren_promise b onProgress rest st1 of
             (NeverReturns, st2) \<Rightarrow> (NeverReturns, st2)
           | (Returns ss, st2) \<Rightarrow> (Returns (s # ss), st2)))"

section \<open>JSON\<close>

text \<open>
  A JavaScript value as \<^verbatim>\<open>JSON.parse\<close> returns it, and \<^verbatim>\<open>undefined\<close>, the value of a
  property that is not there. An object lists its properties in insertion order.
\<close>

datatype jsval =
  Undefined | Null | Bool bool | Number rat | String string | Array "jsval list"
| Object "(string \<times> jsval) list"

definition typeName :: "node_type \<Rightarrow> string" where
  "typeName t = (case t of TFile \<Rightarrow> ''file'' | TFolder \<Rightarrow> ''folder'')"

text \<open>
  The document \<^verbatim>\<open>JSON.stringify(serializedRoot)\<close> writes, as the JSON value the text
  denotes: the properties in the order they were added, a property whose value is
  \<^verbatim>\<open>undefined\<close> left out.
\<close>

fun JSON_stringify :: "SerializedNode \<Rightarrow> jsval" where
  "JSON_stringify (SerializedNode i nm p t cs th d) =
     Object ([(''id'', String i), (''name'', String nm), (''path'', String p),
              (''type'', String (typeName t)), (''children'', Array (map JSON_stringify cs))]
             @ (case d of None \<Rightarrow> [] | Some b \<Rightarrow> [(''isDeleted'', Bool b)])
             @ (case th of None \<Rightarrow> [] | Some payload \<Rightarrow> [(''thumbnailData'', String payload)]))"

definition hasProperty :: "jsval \<Rightarrow> string \<Rightarrow> bool" where
  "hasProperty v key = (case v of Object props \<Rightarrow> key \<in> fst ` set props | _ \<Rightarrow> False)"

section \<open>The Snapshot Deserializer (deserializeTree)\<close>

text \<open>
  The first match of the regular expression \<^verbatim>\<open>/:(.*?);/\<close>: the text between the first
  colon that a semicolon follows on the same line, and that semicolon.
\<close>

fun untilSemicolon :: "string \<Rightarrow> string option" where
  "untilSemicolon [] = None"
| "untilSemicolon (c # cs) =
     (if c = CHR '';'' then Some []
      else if c = CHR 0x0A \<or> c = CHR 0x0D then None
      else map_option ((#) c) (untilSemicolon cs))"

fun matchMime :: "string \<Rightarrow> string option" where
  "matchMime [] = None"
| "matchMime (c # cs) =
     (if c = CHR '':'' then (case untilSemicolon cs of Some m \<Rightarrow> Some m | None \<Rightarrow> matchMime cs)
      else matchMime cs)"

text \<open>
  \<^verbatim>\<open>base64ToBlob\<close>. When the text has no comma \<^verbatim>\<open>arr[1]\<close> is \<^verbatim>\<open>undefined\<close>, which
  \<^verbatim>\<open>atob\<close> reads as the text "undefined". The blob holds the decoded bytes, and as its
  type the matched text as it is (the empty text when nothing matched): \<open>blob_type\<close> is
  the text given to \<^verbatim>\<open>new Blob\<close>, before the constructor puts it in lower case or, when
  it has a character outside U+0020 to U+007E, replaces it by the empty text.
\<close>

definition base64ToBlob :: "host \<Rightarrow> string \<Rightarrow> Blob completion" where
  "base64ToBlob h base64 =
     (let arr = split CHR '','' base64;
          mime = matchMime (hd arr)
      in case atob h (if 1 < length arr then arr ! 1 else ''undefined'') of
           None \<Rightarrow> Throw
         | Some bstr \<Rightarrow>
             Normal \<lparr>blob_bytes = bstr, blob_type = (case mime of None \<Rightarrow> [] | Some m \<Rightarrow> m)\<rparr>)"

definition newFile :: "Blob \<Rightarrow> string \<Rightarrow> File" where
  "newFile blob nm =
     \<lparr>blob_bytes = blob_bytes blob, blob_type = blob_type blob, file_name = nm,
      webkitRelativePath = []\<rparr>"

text \<open>
  \<^verbatim>\<open>deserializeTree\<close>, as TypeScript types it. It returns the restored node and the nodes it
  pushed onto \<^verbatim>\<open>allImagesAccumulator\<close>, in the order of the pushes. A pushed node is the
  restored node itself: the children it gets after the push are seen through the
  accumulator too.
\<close>

fun deserializeTree :: "host \<Rightarrow> SerializedNode \<Rightarrow> (FileNode \<times> FileNode list) completion"
and deserializeChildren ::
  "host \<Rightarrow> SerializedNode list \<Rightarrow> (FileNode list \<times> FileNode list) completion" where
  "deserializeTree h (SerializedNode i nm p t cs th d) =
     (case (if t = TFile \<and> th \<noteq> None \<and> th \<noteq> Some []
            then (case base64ToBlob h (the th) of
                    Throw \<Rightarrow> Throw
                  | Normal blob \<Rightarrow> Normal (Some blob))
            else Normal None) of
        Throw \<Rightarrow> Throw
      | Normal blob \<Rightarrow>
          (case deserializeChildren h cs of
             Throw \<Rightarrow> Throw
           | Normal (children, pushedBelow) \<Rightarrow>
               (let restoredNode =
                      FileNode i nm p t children
                        (map_option (\<lambda>b. newFile b nm) blob)
                        (map_option createObjectURL blob)
                        (Some (d = Some True))
                in Normal (restoredNode,
                     (if blob = None then [] else [restoredNode]) @ pushedBelow))))"
| "deserializeChildren h [] = Normal ([], [])"
| "deserializeChildren h (child # rest) =
     (case deserializeTree h child of
        Throw \<Rightarrow> Throw
      | Normal (n, pushed) \<Rightarrow>
          (case deserializeChildren h rest of
             Throw \<Rightarrow> Throw
           | Normal (ns, pushedRest) \<Rightarrow> Normal (n # ns, pushed @ pushedRest)))"

section \<open>Importing a snapshot (handleImport)\<close>

text \<open>
  \<^verbatim>\<open>JSON.parse\<close> returns any JSON value: the annotation \<^verbatim>\<open>SerializedNode\<close> on its result
  is not checked when the program runs. So the import runs \<^verbatim>\<open>deserializeTree\<close> on a
  \<open>jsval\<close>, and a restored node holds whatever values the document had.

  \<open>getProp v key\<close> is \<^verbatim>\<open>v[key]\<close> for a \<open>v\<close> that is neither \<^verbatim>\<open>null\<close> nor \<^verbatim>\<open>undefined\<close>
  and a key the deserializer reads (no array, string, number or boolean has a property
  of one of these names). \<open>truthy\<close> is the test of \<^verbatim>\<open>if (v)\<close>.
\<close>

definition getProp :: "jsval \<Rightarrow> string \<Rightarrow> jsval" where
  "getProp v key =
     (case v of
        Object props \<Rightarrow> (case map_of props key of Some x \<Rightarrow> x | None \<Rightarrow> Undefined)
      | _ \<Rightarrow> Undefined)"

definition truthy :: "jsval \<Rightarrow> bool" where
  "truthy v =
     (case v of
        Undefined \<Rightarrow> False
      | Null \<Rightarrow> False
      | Bool b \<Rightarrow> b
      | Number x \<Rightarrow> x \<noteq> 0
      | String s \<Rightarrow> s \<noteq> []
      | _ \<Rightarrow> True)"

text \<open>
  A restored node under these values. Its \<^verbatim>\<open>file\<close> is the blob and the value given to
  \<^verbatim>\<open>new File\<close> as the name.
\<close>

datatype LiveNode = LiveNode
  (ln_id: jsval) (ln_name: jsval) (ln_path: jsval) (ln_type: jsval)
  (ln_children: "LiveNode list") (ln_file: "(Blob \<times> jsval) option")
  (ln_url: "objectURL option") (ln_isDeleted: jsval)

definition decodeThumbnail :: "host \<Rightarrow> jsval \<Rightarrow> Blob completion" where
  "decodeThumbnail h thumbnailData =
     (case thumbnailData of String base64 \<Rightarrow> base64ToBlob h base64 | _ \<Rightarrow> Throw)"

lemma size_map_of:
  "map_of props key = Some v \<Longrightarrow> size v < Suc (size_list (size_prod (\<lambda>_. 0) size) props)"
  by (induction props) (auto split: if_splits)

lemma size_getProp: "getProp node key = Array cs \<Longrightarrow> size_list size cs < size node"
  by (cases node) (auto simp: getProp_def split: option.splits dest!: size_map_of)

function deserializeTree_js :: "host \<Rightarrow> jsval \<Rightarrow> (LiveNode \<times> LiveNode list) completion"
and deserializeChildren_js ::
  "host \<Rightarrow> jsval list \<Rightarrow> (LiveNode list \<times> LiveNode list) completion" where
  "deserializeTree_js h node =
     (if node = Undefined \<or> node = Null then Throw
      else
        (case (if getProp node ''type'' = String ''file'' \<and> truthy (getProp node ''thumbnailData'')
               then (case decodeThumbnail h (getProp node ''thumbnailData'') of
                       Throw \<Rightarrow> Throw
                     | Normal blob \<Rightarrow> Normal (Some blob))
               else Normal None) of
           Throw \<Rightarrow> Throw
         | Normal blob \<Rightarrow>
             (case (if truthy (getProp node ''children'')
                    then (case getProp node ''children'' of
                            Array cs \<Rightarrow> deserializeChildren_js h cs
                          | _ \<Rightarrow> Throw)
                    else Normal ([], [])) of
                Throw \<Rightarrow> Throw
              | Normal (children, pushedBelow) \<Rightarrow>
                  (let restoredNode =
                         LiveNode (getProp node ''id'') (getProp node ''name'')
                           (getProp node ''path'') (getProp node ''type'') children
                           (map_option (\<lambda>b. (b, getProp node ''name'')) blob)
                           (map_option createObjectURL blob)
                           (if truthy (getProp node ''isDeleted'') then getProp node ''isDeleted''
                            else Bool False)
                   in Normal (restoredNode,
                        (if blob = None then [] else [restoredNode]) @ pushedBelow)))))"
| "deserializeChildren_js h [] = Normal ([], [])"
| "deserializeChildren_js h (child # rest) =
     (case deserializeTree_js h child of
        Throw \<Rightarrow> Throw
      | Normal (n, pushed) \<Rightarrow>
          (case deserializeChildren_js h rest of
             Throw \<Rightarrow> Throw
           | Normal (ns, pushedRest) \<Rightarrow> Normal (n # ns, pushed @ pushedRest)))"
  by pat_completeness auto
termination
  by (relation "measure (\<lambda>x. case x of Inl (h, node) \<Rightarrow> 2 * size node
                                     | Inr (h, cs) \<Rightarrow> 2 * size_list size cs + 1)")
     (auto dest: size_getProp)

fun countFolders :: "LiveNode \<Rightarrow> nat" where
  "countFolders (LiveNode i nm p t cs f u d) =
     (if t = String ''folder'' then 1 + sum_list (map countFolders cs) else 0)"

record GalleryStats =
  totalFiles :: int
  totalFolders :: int
  totalSize :: int

text \<open>The state of \<^verbatim>\<open>App\<close> that the import writes, and the alerts shown so far.\<close>

record AppState =
  rootNode :: "LiveNode option"
  currentNode :: "LiveNode option"
  allImages :: "LiveNode list"
  stats :: GalleryStats
  isImporting :: bool
  alerts :: "string list"

text \<open>
  \<^verbatim>\<open>handleImport\<close> from the moment the reader has loaded the text \<open>json\<close>:
  \<^verbatim>\<open>setIsImporting(true)\<close> came before, the \<^verbatim>\<open>try\<close> block parses and restores and writes
  the state, \<^verbatim>\<open>catch\<close> shows the alert, \<^verbatim>\<open>finally\<close> clears the flag.
  \<open>JSON_parse\<close> is \<^verbatim>\<open>JSON.parse\<close>, \<open>None\<close> when it raises a syntax error.
\<close>

definition handleImport ::
  "(string \<Rightarrow> jsval option) \<Rightarrow> host \<Rightarrow> string \<Rightarrow> AppState \<Rightarrow> AppState" where
  "handleImport JSON_parse h json st =
     (let st1 = st\<lparr>isImporting := True\<rparr>
      in case (case JSON_parse json of
                 None \<Rightarrow> Throw
               | Some serializedRoot \<Rightarrow> deserializeTree_js h serializedRoot) of
           Throw \<Rightarrow> st1\<lparr>alerts := alerts st1 @ [''Invalid snapshot file.''], isImporting := False\<rparr>
         | Normal (restoredRoot, allImagesList) \<Rightarrow>
             st1\<lparr>rootNode := Some restoredRoot,
                 currentNode := Some restoredRoot,
                 allImages := allImagesList,
                 stats := \<lparr>totalFiles = int (length allImagesList),
                            totalFolders = int (countFolders restoredRoot) - 1,
                            totalSize = 0\<rparr>,
                 isImporting := False\<rparr>)"

section \<open>Notions for the properties\<close>

subsection \<open>Of the Ingestion Builder\<close>

text \<open>
  No folder holds two folder children of one name, at any depth; a node is the file node
  pushed for a file; every node of the flat list is a file node of the tree; an entry
  passes the two filters of the builder.
\<close>

fun uniqueFolderNames :: "FileNode \<Rightarrow> bool" where
  "uniqueFolderNames (FileNode i nm p t cs f u d) =
     (distinct (map fn_name (filter (\<lambda>c. fn_type c = TFolder) cs)) \<and>
      (\<forall>c \<in> set cs. uniqueFolderNames c))"

definition isPushOf :: "File \<Rightarrow> string \<Rightarrow> FileNode \<Rightarrow> bool" where
  "isPushOf f part x \<longleftrightarrow>
     fn_type x = TFile \<and> fn_file x = Some f \<and> fn_name x = part \<and>
     fn_path x = webkitRelativePath f \<and> fn_isDeleted x = Some False \<and> fn_children x = []"

definition accImagesInTree :: "FileNode \<times> FileNode list \<Rightarrow> bool" where
  "accImagesInTree st \<longleftrightarrow>
     fn_type (fst st) = TFolder \<and>
     (\<forall>x \<in> set (snd st). fn_type x = TFile \<and> x \<in> set (nodes (fst st)))"

definition accepted :: "File \<Rightarrow> bool" where
  "accepted f \<longleftrightarrow> \<not> startsWith (file_name f) ''.'' \<and> startsWith (blob_type f) ''image/''"

subsection \<open>Of the Serializer\<close>

text \<open>
  \<open>payloadOf h n\<close> is the \<^verbatim>\<open>thumbnailData\<close> the walk leaves on the output of node \<open>n\<close>;
  \<open>serializes h n s\<close> says that \<open>s\<close> is the output of \<open>n\<close>, children apart.
  \<open>transcodedFiles n\<close> are the sources of the file nodes of a tree, depth first.
  \<open>transcode\<close> names the way a transcode ends. \<open>allLocal Q\<close> holds when every node of a
  tree satisfies \<open>Q\<close> on its type, source and flag, and \<open>asBuilt\<close> is what the Ingestion
  Builder writes there.
\<close>

definition payloadOf :: "host \<Rightarrow> FileNode \<Rightarrow> string option" where
  "payloadOf h n =
     (case (fn_type n, fn_file n) of
        (TFile, Some f) \<Rightarrow>
          (case processImageForExport h f of Normal payload \<Rightarrow> Some payload | Throw \<Rightarrow> None)
      | _ \<Rightarrow> None)"

definition serializes :: "host \<Rightarrow> FileNode \<Rightarrow> SerializedNode \<Rightarrow> bool" where
  "serializes h n s \<longleftrightarrow>
     sn_id s = fn_id n \<and> sn_name s = fn_name n \<and> sn_path s = fn_path n \<and>
     sn_type s = fn_type n \<and> sn_isDeleted s = fn_isDeleted n \<and>
     length (sn_children s) = length (fn_children n) \<and>
     sn_thumbnailData s = payloadOf h n"

definition sourceOf :: "FileNode \<Rightarrow> File option" where
  "sourceOf n = (if fn_type n = TFile then fn_file n else None)"

definition transcodedFiles :: "FileNode \<Rightarrow> File list" where
  "transcodedFiles n = List.map_filter sourceOf (nodes n)"

definition progressEvents :: "('s \<Rightarrow> 's) option \<Rightarrow> File \<Rightarrow> event list" where
  "progressEvents onProgress f =
     (case onProgress of Some callback \<Rightarrow> [Transcoded f, Progress] | None \<Rightarrow> [Transcoded f])"

definition callbackRuns :: "('s \<Rightarrow> 's) option \<Rightarrow> nat \<Rightarrow> 's \<Rightarrow> 's" where
  "callbackRuns onProgress k s = (case onProgress of Some callback \<Rightarrow> (callback ^^ k) s | None \<Rightarrow> s)"

datatype outcome = Raised | ReadFailed | DecodeFailed | NoContext | Encoded string

definition transcode :: "host \<Rightarrow> File \<Rightarrow> outcome" where
  "transcode h f =
     (case readAsDataURL h f of
        ReadRaises \<Rightarrow> Raised
      | ReadError \<Rightarrow> ReadFailed
      | ReadLoaded src \<Rightarrow>
          (case decodeImage h src of
             None \<Rightarrow> DecodeFailed
           | Some (w, ht) \<Rightarrow>
               if getContext h (nat \<lfloor>fst (exportSize w ht)\<rfloor>) (nat \<lfloor>snd (exportSize w ht)\<rfloor>)
               then Encoded (toDataURL h src (nat \<lfloor>fst (exportSize w ht)\<rfloor>)
                               (nat \<lfloor>snd (exportSize w ht)\<rfloor>))
               else NoContext))"

definition isFileNode :: "FileNode \<Rightarrow> bool" where
  "isFileNode n \<longleftrightarrow> fn_type n = TFile"

fun allLocal :: "(node_type \<Rightarrow> File option \<Rightarrow> bool option \<Rightarrow> bool) \<Rightarrow> FileNode \<Rightarrow> bool" where
  "allLocal Q (FileNode i nm p t cs f u d) = (Q t f d \<and> (\<forall>c \<in> set cs. allLocal Q c))"

definition asBuilt :: "node_type \<Rightarrow> File option \<Rightarrow> bool option \<Rightarrow> bool" where
  "asBuilt t f d \<longleftrightarrow> (case t of TFile \<Rightarrow> f \<noteq> None \<and> d = Some False | TFolder \<Rightarrow> f = None \<and> d = None)"

text \<open>
  \<open>settles b f\<close>: the promise of the transcode of \<open>f\<close> in the browser \<open>b\<close> does not stay
  pending. \<open>stateAfter onProgress fs st\<close> is the caller's state and the log once the files
  \<open>fs\<close> have been transcoded from \<open>st\<close>.
\<close>

definition settles :: "browser \<Rightarrow> File \<Rightarrow> bool" where
  "settles b f \<longleftrightarrow> processImageForExport_promise b f \<noteq> Pending"

definition stateAfter :: "('s \<Rightarrow> 's) option \<Rightarrow> File list \<Rightarrow> 's \<times> event list \<Rightarrow> 's \<times> event list" where
  "stateAfter onProgress fs st =
     (callbackRuns onProgress (length fs) (fst st),
      snd st @ concat (map (progressEvents onProgress) fs))"

subsection \<open>Of the round trip\<close>

text \<open>
  The outline of a tree is what the round trip is asked to keep: at every node the id, the
  name, the path, the type and the flag, and the outlines of the children in their order.
  \<open>flagDefaulted\<close> reads an absent flag as false and keeps a flag that is set.
  \<open>decodablePayloads h\<close> says of the browser that \<^verbatim>\<open>atob\<close> decodes the base64 part of
  every non-empty text that \<^verbatim>\<open>canvas.toDataURL\<close> returns.
\<close>

datatype outline = Outline string string string node_type "bool option" "outline list"

fun outlineOf :: "FileNode \<Rightarrow> outline" where
  "outlineOf (FileNode i nm p t cs f u d) = Outline i nm p t d (map outlineOf cs)"

fun flagDefaulted :: "outline \<Rightarrow> outline" where
  "flagDefaulted (Outline i nm p t d cs) =
     Outline i nm p t (Some (case d of None \<Rightarrow> False | Some b \<Rightarrow> b)) (map flagDefaulted cs)"

definition decodablePayloads :: "host \<Rightarrow> bool" where
  "decodablePayloads h \<longleftrightarrow>
     (\<forall>src w ht. toDataURL h src w ht = [] \<or> base64ToBlob h (toDataURL h src w ht) \<noteq> Throw)"

subsection \<open>Of the import\<close>

text \<open>
  \<open>hasNodeShape\<close> is the shape the specification requires of a Serialized Node document:
  an object with texts \<^verbatim>\<open>id\<close>, \<^verbatim>\<open>name\<close> and \<^verbatim>\<open>path\<close>, a \<^verbatim>\<open>type\<close> that is "file" or
  "folder", an array \<^verbatim>\<open>children\<close> of such objects, and, when present, a boolean
  \<^verbatim>\<open>isDeleted\<close> and a text \<^verbatim>\<open>thumbnailData\<close>. \<open>invalidSnapshot st st'\<close> is the failure of
  the import as a whole: the one alert, and nothing of the workspace changed;
  \<open>adopted r imgs st st'\<close> is its success. \<open>live\<close> reads a typed node as a node of the
  import.
\<close>

definition isString :: "jsval \<Rightarrow> bool" where
  "isString v = (case v of String s \<Rightarrow> True | _ \<Rightarrow> False)"

definition isBoolean :: "jsval \<Rightarrow> bool" where
  "isBoolean v = (case v of Bool b \<Rightarrow> True | _ \<Rightarrow> False)"

function hasNodeShape :: "jsval \<Rightarrow> bool" where
  "hasNodeShape v =
     (case v of
        Object props \<Rightarrow>
          isString (getProp v ''id'') \<and> isString (getProp v ''name'') \<and>
          isString (getProp v ''path'') \<and>
          (getProp v ''type'' = String ''file'' \<or> getProp v ''type'' = String ''folder'') \<and>
          (case getProp v ''children'' of Array cs \<Rightarrow> list_all hasNodeShape cs | _ \<Rightarrow> False) \<and>
          (getProp v ''isDeleted'' = Undefined \<or> isBoolean (getProp v ''isDeleted'')) \<and>
          (getProp v ''thumbnailData'' = Undefined \<or> isString (getProp v ''thumbnailData''))
      | _ \<Rightarrow> False)"
  by pat_completeness auto
termination
proof (relation "measure size")
  show "wf (measure size)" by simp
next
  fix v :: jsval and props cs c
  assume "getProp v ''children'' = Array cs" "c \<in> set cs"
  then have "size_list size cs < size v" "size c \<le> size_list size cs"
    by (auto dest: size_getProp simp: size_list_estimation')
  then show "(c, v) \<in> measure size" by simp
qed

definition invalidSnapshot :: "AppState \<Rightarrow> AppState \<Rightarrow> bool" where
  "invalidSnapshot st st' \<longleftrightarrow>
     alerts st' = alerts st @ [''Invalid snapshot file.''] \<and>
     rootNode st' = rootNode st \<and> currentNode st' = currentNode st \<and>
     allImages st' = allImages st \<and> stats st' = stats st \<and> \<not> isImporting st'"

definition adopted :: "LiveNode \<Rightarrow> LiveNode list \<Rightarrow> AppState \<Rightarrow> AppState \<Rightarrow> bool" where
  "adopted r imgs st st' \<longleftrightarrow>
     alerts st' = alerts st \<and> rootNode st' = Some r \<and> currentNode st' = Some r \<and>
     allImages st' = imgs \<and>
     stats st' = \<lparr>totalFiles = int (length imgs), totalFolders = int (countFolders r) - 1,
                   totalSize = 0\<rparr> \<and>
     \<not> isImporting st'"

fun live :: "FileNode \<Rightarrow> LiveNode" where
  "live (FileNode i nm p t cs f u d) =
     LiveNode (String i) (String nm) (String p) (String (typeName t)) (map live cs)
       (map_option (\<lambda>x. (\<lparr>blob_bytes = blob_bytes x, blob_type = blob_type x\<rparr>,
                            String (file_name x))) f)
       u (case d of None \<Rightarrow> Undefined | Some b \<Rightarrow> Bool b)"

subsection \<open>Examples\<close>

text \<open>
  Entries: a file of the given relative path, base name and media type. \<open>sceneFiles\<close> is
  the ingest of the specification's scenario, and \<open>hiddenDirFiles\<close> has an entry inside a
  hidden folder and a hidden entry. In the browser \<open>flakyHost\<close> the read of every file
  named a.png fails and every other file is an image of 500 by 500 that encodes to one
  fixed payload. \<open>restoredTree\<close> is what comes back from the snapshot of a single a.png
  exported there, and \<open>sceneRestored\<close> what comes back from the snapshot of the scenario.
  \<open>parseSamples\<close> parses three documents and rejects every other text.
\<close>

definition fileAt :: "string \<Rightarrow> string \<Rightarrow> string \<Rightarrow> File" where
  "fileAt path nm mime = \<lparr>blob_bytes = [], blob_type = mime, file_name = nm, webkitRelativePath = path\<rparr>"

definition hiddenDirFiles :: "File list" where
  "hiddenDirFiles =
     [fileAt ''.git/img/a.png'' ''a.png'' ''image/png'',
      fileAt ''docs/.hidden.png'' ''.hidden.png'' ''image/png'']"

definition flakyHost :: host where
  "flakyHost =
     \<lparr>readAsDataURL = (\<lambda>f. if file_name f = ''a.png'' then ReadError else ReadLoaded (blob_bytes f)),
      decodeImage = (\<lambda>src. Some (500, 500)),
      getContext = (\<lambda>w ht. True),
      toDataURL = (\<lambda>src w ht. ''data:image/jpeg;base64,QUJD''),
      atob = (\<lambda>s. if s = ''QUJD'' then Some ''ABC'' else None)\<rparr>"

definition sceneFiles :: "File list" where
  "sceneFiles =
     [fileAt ''photos/a.png'' ''a.png'' ''image/png'',
      fileAt ''photos/sub/b.png'' ''b.png'' ''image/png'']"

definition restoredTree :: FileNode where
  "restoredTree =
     FileNode ''root'' ''Root'' [] TFolder
       [FileNode ''/a.png'' ''a.png'' ''a.png'' TFile [] None None (Some False)]
       None None (Some False)"

definition sceneRestored :: FileNode where
  "sceneRestored =
     FileNode ''root'' ''Root'' [] TFolder
       [FileNode ''/photos'' ''photos'' ''photos'' TFolder
          [FileNode ''photos/a.png'' ''a.png'' ''photos/a.png'' TFile [] None None (Some False),
           FileNode ''photos/sub'' ''sub'' ''photos/sub'' TFolder
             [FileNode ''photos/sub/b.png'' ''b.png'' ''photos/sub/b.png'' TFile []
                (Some \<lparr>blob_bytes = ''ABC'', blob_type = ''image/jpeg'', file_name = ''b.png'',
                        webkitRelativePath = []\<rparr>)
                (Some (ObjectURL ''ABC'')) (Some False)]
             None None (Some False)]
          None None (Some False)]
       None None (Some False)"

definition emptyWorkspace :: AppState where
  "emptyWorkspace =
     \<lparr>rootNode = None, currentNode = None, allImages = [],
      stats = \<lparr>totalFiles = 0, totalFolders = 0, totalSize = 0\<rparr>,
      isImporting = False, alerts = []\<rparr>"

definition parseSamples :: "string \<Rightarrow> jsval option" where
  "parseSamples json =
     (if json = ''{}'' then Some (Object [])
      else if json = ''null'' then Some Null
      else if json = ''{\"children\":5}'' then Some (Object [(''children'', Number 5)])
      else None)"

text \<open>
  \<open>vectorScene\<close> is the scenario with a vector image in the place of a.png. In the browser
  \<open>stuckBrowser\<close> every file is read, decoded and drawn, and encoding the canvas of that
  vector image raises. In the browser \<open>blankHost\<close> the vector image loads with width and height
  0, and the encoder answers \<^verbatim>\<open>data:,\<close> for a canvas without pixels.
\<close>

definition svgFile :: File where
  "svgFile =
     \<lparr>blob_bytes = ''<svg/>'', blob_type = ''image/svg+xml'', file_name = ''a.svg'',
      webkitRelativePath = ''photos/a.svg''\<rparr>"

definition vectorScene :: "File list" where
  "vectorScene = [svgFile, fileAt ''photos/sub/b.png'' ''b.png'' ''image/png'']"

definition stuckBrowser :: browser where
  "stuckBrowser =
     \<lparr>readAsDataURL = (\<lambda>f. ReadLoaded (blob_bytes f)),
      decodeImage = (\<lambda>src. Some (500, 500)),
      getContext = (\<lambda>w ht. True),
      toDataURL = (\<lambda>src w ht. ''data:image/jpeg;base64,QUJD''),
      atob = (\<lambda>s. if s = ''QUJD'' then Some ''ABC'' else None),
      getContextRaises = (\<lambda>w ht. False),
      drawImageRaises = (\<lambda>src w ht. False),
      toDataURLRaises = (\<lambda>src w ht. src = ''<svg/>'')\<rparr>"

definition blankHost :: host where
  "blankHost =
     \<lparr>readAsDataURL = (\<lambda>f. ReadLoaded (blob_bytes f)),
      decodeImage = (\<lambda>src. if src = ''<svg/>'' then Some (0, 0) else Some (500, 500)),
      getContext = (\<lambda>w ht. True),
      toDataURL = (\<lambda>src w ht. if w = 0 \<or> ht = 0 then ''data:,'' else ''data:image/jpeg;base64,QUJD''),
      atob = (\<lambda>s. if s = [] then Some [] else if s = ''QUJD'' then Some ''ABC'' else None)\<rparr>"

section \<open>Properties of the Ingestion Builder\<close>

subsection \<open>The cursor walk\<close>

lemma setChildren_sel [simp]:
  "fn_id (setChildren cs n) = fn_id n"
  "fn_name (setChildren cs n) = fn_name n"
  "fn_path (setChildren cs n) = fn_path n"
  "fn_type (setChildren cs n) = fn_type n"
  "fn_children (setChildren cs n) = cs"
  "fn_file (setChildren cs n) = fn_file n"
  "fn_url (setChildren cs n) = fn_url n"
  "fn_isDeleted (setChildren cs n) = fn_isDeleted n"
  by (cases n; simp)+

lemma uniqueFolderNames_iff:
  "uniqueFolderNames n \<longleftrightarrow>
     distinct (map fn_name (filter (\<lambda>c. fn_type c = TFolder) (fn_children n))) \<and>
     (\<forall>c \<in> set (fn_children n). uniqueFolderNames c)"
  by (cases n) simp

lemma nodes_unfold: "nodes n = n # concat (map nodes (fn_children n))"
  by (cases n) simp

lemma findIndex_None: "findIndex P xs = None \<longleftrightarrow> (\<forall>x \<in> set xs. \<not> P x)"
  by (induction xs) auto

lemma findIndex_Some: "findIndex P xs = Some k \<Longrightarrow> k < length xs \<and> P (xs ! k)"
  by (induction xs arbitrary: k) (auto split: if_splits)

lemma map_filter_update:
  "k < length xs \<Longrightarrow> P y = P (xs ! k) \<Longrightarrow> g y = g (xs ! k) \<Longrightarrow>
   map g (filter P (xs[k := y])) = map g (filter P xs)"
  by (induction xs arbitrary: k) (auto split: nat.splits simp: nth_Cons')

lemma walkParts_keeps [simp]:
  "fn_id (fst (walkParts f n ps)) = fn_id n"
  "fn_name (fst (walkParts f n ps)) = fn_name n"
  "fn_path (fst (walkParts f n ps)) = fn_path n"
  "fn_type (fst (walkParts f n ps)) = fn_type n"
  "fn_isDeleted (fst (walkParts f n ps)) = fn_isDeleted n"
  by (induction f n ps rule: walkParts.induct; simp add: Let_def case_prod_beta split: option.splits)+

lemma walkParts_unique:
  "uniqueFolderNames n \<Longrightarrow> uniqueFolderNames (fst (walkParts f n ps))"
proof (induction f n ps rule: walkParts.induct)
  case (1 f currentNode)
  then show ?case by simp
next
  case (2 f currentNode part)
  then show ?case
    by (simp add: uniqueFolderNames_iff [of "setChildren _ _"] uniqueFolderNames_iff [of currentNode]
        newFileNode_def Let_def)
next
  case (3 f currentNode part p2 rest)
  let ?cs = "fn_children currentNode"
  from "3.prems" have d: "distinct (map fn_name (filter (\<lambda>c. fn_type c = TFolder) ?cs))"
    and u: "\<forall>c \<in> set ?cs. uniqueFolderNames c"
    by (simp_all add: uniqueFolderNames_iff [of currentNode])
  show ?case
  proof (cases "findIndex (isFolderNamed part) ?cs")
    case None
    have new: "uniqueFolderNames (newFolderNode currentNode part)"
      by (simp add: newFolderNode_def)
    have sub: "uniqueFolderNames (fst (walkParts f (newFolderNode currentNode part) (p2 # rest)))"
      using "3.IH"(1) [OF None new] .
    have fresh: "part \<notin> fn_name ` {c \<in> set ?cs. fn_type c = TFolder}"
      using None by (auto simp: findIndex_None isFolderNamed_def)
    have nm: "fn_name (fst (walkParts f (newFolderNode currentNode part) (p2 # rest))) = part"
      by (simp add: newFolderNode_def)
    show ?thesis
      using None d u sub fresh nm
      by (simp add: uniqueFolderNames_iff [of "setChildren _ _"] case_prod_beta)
  next
    case (Some k)
    then have k: "k < length ?cs" and "isFolderNamed part (?cs ! k)"
      by (auto dest: findIndex_Some)
    have "uniqueFolderNames (?cs ! k)" using u k by simp
    then have sub: "uniqueFolderNames (fst (walkParts f (?cs ! k) (p2 # rest)))"
      using "3.IH"(2) [OF Some] by simp
    have same: "map fn_name (filter (\<lambda>c. fn_type c = TFolder)
                  (?cs[k := fst (walkParts f (?cs ! k) (p2 # rest))])) =
                map fn_name (filter (\<lambda>c. fn_type c = TFolder) ?cs)"
      by (rule map_filter_update [OF k]) simp_all
    have "\<forall>c \<in> set (?cs[k := fst (walkParts f (?cs ! k) (p2 # rest))]). uniqueFolderNames c"
      using u sub by (auto dest!: set_update_subset_insert [THEN subsetD])
    then show ?thesis
      using Some d same
      by (simp add: uniqueFolderNames_iff [of "setChildren _ _"] case_prod_beta)
  qed
qed

lemma ingest_unique: "uniqueFolderNames (fst st) \<Longrightarrow> uniqueFolderNames (fst (ingest f st))"
  using walkParts_unique [of "fst st" f "pathPartsOf f"]
  by (simp add: ingest_def case_prod_beta)

lemma fold_ingest_unique:
  "uniqueFolderNames (fst st) \<Longrightarrow> uniqueFolderNames (fst (fold ingest files st))"
  by (induction files arbitrary: st) (simp_all add: ingest_unique)

lemma parse_unique: "uniqueFolderNames (fst (parseFilesToTree files))"
  unfolding parseFilesToTree_def by (rule fold_ingest_unique) (simp add: emptyRoot_def)

lemma split_not_Nil: "split sep s \<noteq> []"
  by (induction s) (auto split: list.splits)

lemma pathPartsOf_not_Nil: "pathPartsOf f \<noteq> []"
  by (simp add: pathPartsOf_def split_not_Nil)

lemma nodes_self: "n \<in> set (nodes n)"
  by (subst nodes_unfold) simp

lemma nodes_child: "c \<in> set (fn_children n) \<Longrightarrow> x \<in> set (nodes c) \<Longrightarrow> x \<in> set (nodes n)"
  by (subst nodes_unfold) auto

lemma nodes_cases: "x \<in> set (nodes n) \<Longrightarrow> x = n \<or> (\<exists>c \<in> set (fn_children n). x \<in> set (nodes c))"
  by (subst (asm) nodes_unfold) auto

lemma walkParts_pushes:
  "ps \<noteq> [] \<Longrightarrow>
   \<exists>x. snd (walkParts f n ps) = [x] \<and> isPushOf f (last ps) x \<and>
       x \<in> set (nodes (fst (walkParts f n ps)))"
proof (induction f n ps rule: walkParts.induct)
  case (1 f currentNode)
  then show ?case by simp
next
  case (2 f currentNode part)
  let ?x = "newFileNode f currentNode part"
  have "?x \<in> set (nodes (setChildren (fn_children currentNode @ [?x]) currentNode))"
    by (rule nodes_child [OF _ nodes_self]) simp
  moreover have "isPushOf f part ?x"
    by (simp add: isPushOf_def newFileNode_def)
  ultimately show ?case
    by (simp add: Let_def)
next
  case (3 f currentNode part p2 rest)
  let ?cs = "fn_children currentNode"
  show ?case
  proof (cases "findIndex (isFolderNamed part) ?cs")
    case None
    from "3.IH"(1) [OF None] obtain x where
      x: "snd (walkParts f (newFolderNode currentNode part) (p2 # rest)) = [x]"
         "isPushOf f (last (p2 # rest)) x"
         "x \<in> set (nodes (fst (walkParts f (newFolderNode currentNode part) (p2 # rest))))"
      by auto
    have "x \<in> set (nodes (setChildren
             (?cs @ [fst (walkParts f (newFolderNode currentNode part) (p2 # rest))]) currentNode))"
      by (rule nodes_child [OF _ x(3)]) simp
    with x None show ?thesis
      by (simp add: case_prod_beta)
  next
    case (Some k)
    then have k: "k < length ?cs" by (auto dest: findIndex_Some)
    from "3.IH"(2) [OF Some] obtain x where
      x: "snd (walkParts f (?cs ! k) (p2 # rest)) = [x]"
         "isPushOf f (last (p2 # rest)) x"
         "x \<in> set (nodes (fst (walkParts f (?cs ! k) (p2 # rest))))"
      by auto
    have "x \<in> set (nodes (setChildren
             (?cs[k := fst (walkParts f (?cs ! k) (p2 # rest))]) currentNode))"
      by (rule nodes_child [OF _ x(3)]) (simp add: k set_update_memI)
    with x Some show ?thesis
      by (simp add: case_prod_beta)
  qed
qed

lemma walkParts_keeps_files:
  "x \<in> set (nodes n) \<Longrightarrow> fn_type x = TFile \<Longrightarrow> fn_type n = TFolder \<Longrightarrow>
   x \<in> set (nodes (fst (walkParts f n ps)))"
proof (induction f n ps arbitrary: x rule: walkParts.induct)
  case (1 f currentNode)
  then show ?case by simp
next
  case (2 f currentNode part)
  from nodes_cases [OF "2.prems"(1)] "2.prems"(2,3)
  obtain c where c: "c \<in> set (fn_children currentNode)" "x \<in> set (nodes c)"
    by auto
  have "x \<in> set (nodes (setChildren
           (fn_children currentNode @ [newFileNode f currentNode part]) currentNode))"
    by (rule nodes_child [OF _ c(2)]) (simp add: c(1))
  then show ?case
    by (simp add: Let_def)
next
  case (3 f currentNode part p2 rest)
  let ?cs = "fn_children currentNode"
  from nodes_cases [OF "3.prems"(1)] "3.prems"(2,3)
  obtain c where c: "c \<in> set ?cs" "x \<in> set (nodes c)"
    by auto
  show ?case
  proof (cases "findIndex (isFolderNamed part) ?cs")
    case None
    have "x \<in> set (nodes (setChildren
             (?cs @ [fst (walkParts f (newFolderNode currentNode part) (p2 # rest))]) currentNode))"
      by (rule nodes_child [OF _ c(2)]) (simp add: c(1))
    with None show ?thesis by (simp add: case_prod_beta)
  next
    case (Some k)
    then have k: "k < length ?cs" and fk: "fn_type (?cs ! k) = TFolder"
      by (auto dest: findIndex_Some simp: isFolderNamed_def)
    let ?sub = "fst (walkParts f (?cs ! k) (p2 # rest))"
    from c(1) obtain j where j: "j < length ?cs" "c = ?cs ! j"
      by (auto simp: in_set_conv_nth)
    have "\<exists>c' \<in> set (?cs[k := ?sub]). x \<in> set (nodes c')"
    proof (cases "j = k")
      case True
      then have "x \<in> set (nodes ?sub)"
        using "3.IH"(2) [OF Some _ "3.prems"(2) fk] c(2) j by simp
      then show ?thesis using k by (auto intro: set_update_memI)
    next
      case False
      then have "c \<in> set (?cs[k := ?sub])"
        using j by (metis length_list_update nth_list_update_neq nth_mem)
      then show ?thesis using c(2) by blast
    qed
    then obtain c' where c': "c' \<in> set (?cs[k := ?sub])" "x \<in> set (nodes c')"
      by blast
    have "x \<in> set (nodes (setChildren (?cs[k := ?sub]) currentNode))"
      by (rule nodes_child [OF _ c'(2)]) (simp add: c'(1))
    with Some show ?thesis by (simp add: case_prod_beta)
  qed
qed

lemma ingest_inv: "accImagesInTree st \<Longrightarrow> accImagesInTree (ingest f st)"
proof -
  assume inv: "accImagesInTree st"
  obtain x where x: "snd (walkParts f (fst st) (pathPartsOf f)) = [x]"
      "isPushOf f (last (pathPartsOf f)) x"
      "x \<in> set (nodes (fst (walkParts f (fst st) (pathPartsOf f))))"
    using walkParts_pushes [OF pathPartsOf_not_Nil] by blast
  have old: "y \<in> set (nodes (fst (walkParts f (fst st) (pathPartsOf f))))"
    if "y \<in> set (snd st)" for y
    using inv that by (intro walkParts_keeps_files) (simp_all add: accImagesInTree_def)
  show ?thesis
    using inv x old
    by (auto simp: accImagesInTree_def ingest_def case_prod_beta isPushOf_def)
qed

lemma fold_ingest_inv: "accImagesInTree st \<Longrightarrow> accImagesInTree (fold ingest files st)"
  by (induction files arbitrary: st) (simp_all add: ingest_inv)

lemma ingest_mono: "set (snd st) \<subseteq> set (snd (ingest f st))"
  by (auto simp: ingest_def case_prod_beta)

lemma fold_ingest_mono: "set (snd st) \<subseteq> set (snd (fold ingest files st))"
proof (induction files arbitrary: st)
  case Nil
  then show ?case by simp
next
  case (Cons a files)
  show ?case using ingest_mono [of st a] Cons [of "ingest a st"] by auto
qed

lemma ingest_files:
  "map fn_file (snd (ingest f st)) =
   map fn_file (snd st) @ (if accepted f then [Some f] else [])"
proof -
  obtain x where x: "snd (walkParts f (fst st) (pathPartsOf f)) = [x]"
      "isPushOf f (last (pathPartsOf f)) x"
    using walkParts_pushes [OF pathPartsOf_not_Nil] by blast
  then show ?thesis
    by (auto simp: ingest_def case_prod_beta isPushOf_def accepted_def)
qed

lemma fold_ingest_files:
  "map fn_file (snd (fold ingest files st)) =
   map fn_file (snd st) @ map Some (filter accepted files)"
  by (induction files arbitrary: st) (simp_all add: ingest_files)

lemma ingest_accepted:
  assumes "accepted f"
  shows "\<exists>x \<in> set (snd (ingest f st)). isPushOf f (last (pathPartsOf f)) x"
proof -
  obtain x where x: "snd (walkParts f (fst st) (pathPartsOf f)) = [x]"
      "isPushOf f (last (pathPartsOf f)) x"
    using walkParts_pushes [OF pathPartsOf_not_Nil] by blast
  then show ?thesis using assms
    by (auto simp: ingest_def case_prod_beta accepted_def)
qed

lemma fold_ingest_accepted:
  assumes "f \<in> set files" "accepted f"
  shows "\<exists>x \<in> set (snd (fold ingest files st)). isPushOf f (last (pathPartsOf f)) x"
proof -
  from assms(1) obtain pre post where files: "files = pre @ f # post"
    by (auto simp: in_set_conv_decomp)
  obtain x where x: "x \<in> set (snd (ingest f (fold ingest pre st)))"
      "isPushOf f (last (pathPartsOf f)) x"
    using ingest_accepted [OF assms(2)] by blast
  have "x \<in> set (snd (fold ingest files st))"
    using x(1) fold_ingest_mono [of "ingest f (fold ingest pre st)" post]
    by (auto simp: files)
  with x(2) show ?thesis by blast
qed
subsection \<open>Folder de-duplication\<close>

text \<open>
  C7. In every tree the builder returns, no folder has two folder children of the same
  name. Two accepted entries of paths A/x.png and A/y.png give a root with exactly one
  child, the folder A, which holds the two file nodes in that order.
\<close>

theorem folder_names_unique:
  "uniqueFolderNames (fst (parseFilesToTree files)) \<and>
   (webkitRelativePath f1 = ''A/x.png'' \<and> webkitRelativePath f2 = ''A/y.png'' \<and>
    \<not> startsWith (file_name f1) ''.'' \<and> startsWith (blob_type f1) ''image/'' \<and>
    \<not> startsWith (file_name f2) ''.'' \<and> startsWith (blob_type f2) ''image/'' \<longrightarrow>
    fn_children (fst (parseFilesToTree [f1, f2])) =
      [FileNode ''/A'' ''A'' ''A'' TFolder
         [FileNode ''A/x.png'' ''x.png'' ''A/x.png'' TFile [] (Some f1) (Some (createObjectURL f1)) (Some False),
          FileNode ''A/y.png'' ''y.png'' ''A/y.png'' TFile [] (Some f2) (Some (createObjectURL f2)) (Some False)]
         None None None])"
proof -
  have "uniqueFolderNames (fst (parseFilesToTree files))"
    by (rule parse_unique)
  moreover have "fn_children (fst (parseFilesToTree [f1, f2])) =
      [FileNode ''/A'' ''A'' ''A'' TFolder
         [FileNode ''A/x.png'' ''x.png'' ''A/x.png'' TFile [] (Some f1) (Some (createObjectURL f1)) (Some False),
          FileNode ''A/y.png'' ''y.png'' ''A/y.png'' TFile [] (Some f2) (Some (createObjectURL f2)) (Some False)]
         None None None]"
    if "webkitRelativePath f1 = ''A/x.png''" "webkitRelativePath f2 = ''A/y.png''"
       "\<not> startsWith (file_name f1) ''.''" "startsWith (blob_type f1) ''image/''"
       "\<not> startsWith (file_name f2) ''.''" "startsWith (blob_type f2) ''image/''"
    using that
    by (simp add: parseFilesToTree_def ingest_def pathPartsOf_def emptyRoot_def
        newFolderNode_def newFileNode_def isFolderNamed_def Let_def)
  ultimately show ?thesis by blast
qed

theorem folder_names_unique_witness:
  "uniqueFolderNames (fst (parseFilesToTree
      [fileAt ''A/x.png'' ''x.png'' ''image/png'', fileAt ''A/y.png'' ''y.png'' ''image/png''])) \<and>
   map fn_name (fn_children (fst (parseFilesToTree
      [fileAt ''A/x.png'' ''x.png'' ''image/png'', fileAt ''A/y.png'' ''y.png'' ''image/png'']))) = [''A''] \<and>
   map (map fn_name \<circ> fn_children) (fn_children (fst (parseFilesToTree
      [fileAt ''A/x.png'' ''x.png'' ''image/png'', fileAt ''A/y.png'' ''y.png'' ''image/png'']))) =
     [[''x.png'', ''y.png'']]"
  using folder_names_unique [of "[fileAt ''A/x.png'' ''x.png'' ''image/png'', fileAt ''A/y.png'' ''y.png'' ''image/png'']"
      "fileAt ''A/x.png'' ''x.png'' ''image/png''" "fileAt ''A/y.png'' ''y.png'' ''image/png''"]
  by (simp add: fileAt_def startsWith_def)
subsection \<open>Entries inside hidden folders\<close>

text \<open>
  C10. The filter looks at the base name and the media type of an entry and at nothing
  else: the flat list holds one file node for each entry whose base name does not begin
  with a dot and whose media type begins with image/, in the order of the entries, whatever
  the folder segments of its path are; and that node is in the tree, with the path of the
  entry and its last segment as name.
\<close>

theorem hidden_folder_entries_ingested:
  "map fn_file (snd (parseFilesToTree files)) =
     map Some (filter (\<lambda>f. \<not> startsWith (file_name f) ''.'' \<and> startsWith (blob_type f) ''image/'') files) \<and>
   (f \<in> set files \<and> \<not> startsWith (file_name f) ''.'' \<and> startsWith (blob_type f) ''image/'' \<longrightarrow>
    (\<exists>x \<in> set (snd (parseFilesToTree files)).
       x \<in> set (nodes (fst (parseFilesToTree files))) \<and> fn_type x = TFile \<and>
       fn_file x = Some f \<and> fn_name x = last (pathPartsOf f) \<and>
       fn_path x = webkitRelativePath f))"
proof -
  have inv: "accImagesInTree (parseFilesToTree files)"
    unfolding parseFilesToTree_def
    by (rule fold_ingest_inv) (simp add: accImagesInTree_def emptyRoot_def)
  have "map fn_file (snd (parseFilesToTree files)) = map Some (filter accepted files)"
    by (simp add: parseFilesToTree_def fold_ingest_files)
  moreover have "\<exists>x \<in> set (snd (parseFilesToTree files)).
       x \<in> set (nodes (fst (parseFilesToTree files))) \<and> fn_type x = TFile \<and>
       fn_file x = Some f \<and> fn_name x = last (pathPartsOf f) \<and>
       fn_path x = webkitRelativePath f"
    if "f \<in> set files" "accepted f"
    using fold_ingest_accepted [OF that, of "(emptyRoot, [])"] inv
    by (auto simp: parseFilesToTree_def isPushOf_def accImagesInTree_def)
  ultimately show ?thesis
    by (simp add: accepted_def [abs_def])
qed

theorem hidden_folder_entries_ingested_witness:
  "fileAt ''.git/img/a.png'' ''a.png'' ''image/png'' \<in> set hiddenDirFiles \<and>
   \<not> startsWith (file_name (fileAt ''.git/img/a.png'' ''a.png'' ''image/png'')) ''.'' \<and>
   startsWith (blob_type (fileAt ''.git/img/a.png'' ''a.png'' ''image/png'')) ''image/'' \<and>
   map fn_file (snd (parseFilesToTree hiddenDirFiles)) =
     [Some (fileAt ''.git/img/a.png'' ''a.png'' ''image/png'')] \<and>
   (\<exists>x \<in> set (snd (parseFilesToTree hiddenDirFiles)).
       x \<in> set (nodes (fst (parseFilesToTree hiddenDirFiles))) \<and> fn_type x = TFile \<and>
       fn_file x = Some (fileAt ''.git/img/a.png'' ''a.png'' ''image/png'') \<and>
       fn_name x = ''a.png'' \<and> fn_path x = ''.git/img/a.png'')"
  using hidden_folder_entries_ingested [of hiddenDirFiles "fileAt ''.git/img/a.png'' ''a.png'' ''image/png''"]
  by (simp add: hiddenDirFiles_def fileAt_def startsWith_def pathPartsOf_def)

section \<open>Properties of the scaling\<close>

subsection \<open>Rounding errors\<close>

text \<open>
  Rounding to the nearest integer is off by at most a half, and rounding a positive number
  to the nearest double is off by at most the fraction \<open>2^-53\<close> of it.
\<close>

lemma rne_error: "\<bar>of_int (rne x) - x\<bar> \<le> 1 / 2"
proof -
  define n where "n = \<lfloor>x\<rfloor>"
  have a: "of_int n \<le> x" "x < of_int n + 1"
    unfolding n_def by linarith+
  consider "x - of_int n < 1 / 2" | "1 / 2 < x - of_int n" | "x - of_int n = 1 / 2"
    by linarith
  then show ?thesis
  proof cases
    case 1
    then have "rne x = n" by (simp add: rne_def n_def)
    then show ?thesis using a 1 by simp
  next
    case 2
    then have "rne x = n + 1" by (simp add: rne_def n_def)
    then show ?thesis using a 2 by simp
  next
    case 3
    then have "rne x = n \<or> rne x = n + 1" by (simp add: rne_def n_def Let_def)
    then show ?thesis using a 3 by auto
  qed
qed

lemma two_powi_nat: "0 \<le> n \<Longrightarrow> (2::rat) ^ nat n = 2 powi n"
  by (simp add: power_int_def)

lemma expo_bounds:
  assumes "0 < x"
  shows "2 powi (expo x) \<le> x" and "x < 2 powi (expo x + 1)"
proof -
  obtain p q where pq: "quotient_of x = (p, q)"
    by force
  have q: "0 < q" using quotient_of_denom_pos [OF pq] .
  have x: "x = of_int p / of_int q" using quotient_of_div [OF pq] .
  have p: "0 < p"
    using assms q unfolding x by (simp add: zero_less_divide_iff)
  have bp: "2 ^ nat (bitlen p - 1) \<le> p" "p < 2 ^ nat (bitlen p)"
    using bitlen_bounds [OF p] by simp_all
  have bq: "2 ^ nat (bitlen q - 1) \<le> q" "q < 2 ^ nat (bitlen q)"
    using bitlen_bounds [OF q] by simp_all
  have pos: "1 \<le> bitlen p" "1 \<le> bitlen q"
    using p q by (simp_all add: bitlen_alt_def)
  have rp: "(2::rat) powi (bitlen p - 1) \<le> of_int p" "of_int p < (2::rat) powi bitlen p"
  proof -
    have "(of_int (2 ^ nat (bitlen p - 1)) :: rat) \<le> of_int p"
      using bp(1) by (simp only: of_int_le_iff)
    then show "(2::rat) powi (bitlen p - 1) \<le> of_int p"
      using pos(1) by (simp add: two_powi_nat [symmetric])
    have "(of_int p :: rat) < of_int (2 ^ nat (bitlen p))"
      using bp(2) by (simp only: of_int_less_iff)
    then show "of_int p < (2::rat) powi bitlen p"
      using pos(1) by (simp add: two_powi_nat [symmetric])
  qed
  have rq: "(2::rat) powi (bitlen q - 1) \<le> of_int q" "of_int q < (2::rat) powi bitlen q"
  proof -
    have "(of_int (2 ^ nat (bitlen q - 1)) :: rat) \<le> of_int q"
      using bq(1) by (simp only: of_int_le_iff)
    then show "(2::rat) powi (bitlen q - 1) \<le> of_int q"
      using pos(2) by (simp add: two_powi_nat [symmetric])
    have "(of_int q :: rat) < of_int (2 ^ nat (bitlen q))"
      using bq(2) by (simp only: of_int_less_iff)
    then show "of_int q < (2::rat) powi bitlen q"
      using pos(2) by (simp add: two_powi_nat [symmetric])
  qed
  define k where "k = bitlen p - bitlen q"
  have qpos: "(0::rat) < of_int q" using q by simp
  have ppos: "(0::rat) < of_int p" using p by simp
  have upper: "x < 2 powi (k + 1)"
  proof -
    have "x * 2 powi (bitlen q - 1) \<le> x * of_int q"
      using rq(1) assms by (simp add: mult_left_mono)
    also have "\<dots> = of_int p"
      using qpos by (simp add: x)
    also have "\<dots> < 2 powi bitlen p" by (rule rp(2))
    finally have "x < 2 powi bitlen p / 2 powi (bitlen q - 1)"
      by (simp add: pos_less_divide_eq)
    also have "\<dots> = 2 powi (k + 1)"
      by (simp add: k_def power_int_diff [symmetric] algebra_simps)
    finally show ?thesis .
  qed
  have lower: "2 powi (k - 1) < x"
  proof -
    have "2 powi (bitlen p - 1) \<le> (of_int p :: rat)" by (rule rp(1))
    also have "\<dots> = x * of_int q"
      using qpos by (simp add: x)
    also have "\<dots> < x * 2 powi bitlen q"
      using rq(2) assms by (simp add: mult_strict_left_mono)
    finally have "2 powi (bitlen p - 1) / 2 powi bitlen q < x"
      by (simp add: pos_divide_less_eq)
    moreover have "(2::rat) powi (bitlen p - 1) / 2 powi bitlen q = 2 powi (k - 1)"
      by (simp add: k_def power_int_diff [symmetric] algebra_simps)
    ultimately show ?thesis by simp
  qed
  have e: "expo x = (if 2 powi k \<le> x then k else k - 1)"
    by (simp add: expo_def pq k_def Let_def)
  show "2 powi (expo x) \<le> x"
    using lower by (simp add: e)
  show "x < 2 powi (expo x + 1)"
    using upper by (simp add: e)
qed

lemma fl_error:
  assumes "0 < x"
  shows "\<bar>fl x - x\<bar> \<le> x / 2 ^ 53"
proof -
  define q where "q = expo x - 52"
  define m where "m = x / 2 powi q"
  have two: "(0::rat) < 2 powi q" by simp
  have flx: "fl x = of_int (rne m) * 2 powi q"
    using assms by (simp add: fl_def q_def m_def Let_def)
  have xm: "x = m * 2 powi q"
    by (simp add: m_def)
  have "\<bar>fl x - x\<bar> = \<bar>of_int (rne m) - m\<bar> * 2 powi q"
    unfolding flx by (subst xm) (simp add: left_diff_distrib [symmetric] abs_mult)
  also have "\<dots> \<le> (1 / 2) * 2 powi q"
    by (rule mult_right_mono [OF rne_error]) simp
  also have "\<dots> = 2 powi (expo x) / 2 ^ 53"
  proof -
    have "(2::rat) powi q = 2 powi (expo x) / 2 powi 52"
      unfolding q_def by (rule power_int_diff) simp
    then show ?thesis by simp
  qed
  also have "\<dots> \<le> x / 2 ^ 53"
    using expo_bounds(1) [OF assms] by (simp add: divide_right_mono)
  finally show ?thesis .
qed

lemma fl_pos: "0 < x \<Longrightarrow> 0 < fl x"
proof -
  assume x: "0 < x"
  have "x / 2 ^ 53 < x" using x by (simp add: divide_less_eq)
  with fl_error [OF x] show ?thesis by linarith
qed

subsection \<open>The scaled dimension\<close>

text \<open>
  For a short edge \<open>s\<close> above 1024 and a dimension \<open>w\<close> below \<open>2^32\<close>, the double
  \<^verbatim>\<open>w * (1024 / s)\<close> is closer to the exact quotient than \<open>1 / (2 s)\<close>, which is the least
  distance between a quotient of denominator \<open>s\<close> and a half-integer that it is not. So
  rounding the double gives an integer nearest to the exact quotient.
\<close>

lemma scaled_close:
  fixes w s :: nat
  assumes s: "1024 < s" and w: "s \<le> w" "w < 2 ^ 32"
  shows "\<bar>fl (of_nat w * fl (1024 / of_nat s)) - 1024 * of_nat w / of_nat s\<bar>
           < 1 / (2 * of_nat s)"
proof -
  define W :: rat where "W = of_nat w"
  define S :: rat where "S = of_nat s"
  define X where "X = 1024 * W / S"
  define c where "c = fl (1024 / S)"
  define e :: rat where "e = 1 / 2 ^ 53"
  have S: "0 < S" using s by (simp add: S_def)
  have W: "0 < W" using s w by (simp add: W_def)
  have Wb: "W < 2 ^ 32"
  proof -
    have "(of_nat w :: rat) < of_nat (2 ^ 32)" using w(2) by (simp only: of_nat_less_iff)
    then show ?thesis by (simp add: W_def)
  qed
  have X: "0 < X" using S W by (simp add: X_def)
  have e: "0 < e" by (simp add: e_def)
  have q: "0 < 1024 / S" using S by simp
  have c_err: "\<bar>c - 1024 / S\<bar> \<le> 1024 / S * e"
    using fl_error [OF q] by (simp add: c_def e_def)
  have c: "0 < c" unfolding c_def by (rule fl_pos [OF q])
  have Wc: "0 < W * c" using W c by simp
  have e1: "\<bar>W * c - X\<bar> \<le> X * e"
  proof -
    have "W * c - X = W * (c - 1024 / S)"
      by (simp add: X_def algebra_simps)
    then have "\<bar>W * c - X\<bar> = W * \<bar>c - 1024 / S\<bar>"
      using W by (simp add: abs_mult)
    also have "\<dots> \<le> W * (1024 / S * e)"
      by (rule mult_left_mono [OF c_err less_imp_le [OF W]])
    also have "\<dots> = X * e" by (simp add: X_def)
    finally show ?thesis .
  qed
  have e2: "\<bar>fl (W * c) - W * c\<bar> \<le> W * c * e"
    using fl_error [OF Wc] by (simp add: e_def)
  have Wc_le: "W * c \<le> X + X * e" using e1 by linarith
  have "W * c * e \<le> (X + X * e) * e"
    using Wc_le e by (simp add: mult_right_mono)
  with e1 e2 have total: "\<bar>fl (W * c) - X\<bar> \<le> X * e + (X + X * e) * e"
    by linarith
  have "X * e + (X + X * e) * e = (1024 * W * (2 * e + e * e)) / S"
    by (simp add: X_def algebra_simps add_divide_distrib)
  also have "\<dots> < (1 / 2) / S"
  proof (rule divide_strict_right_mono [OF _ S])
    have k: "0 < 1024 * (2 * e + e * e)" by (simp add: e_def)
    have "1024 * W * (2 * e + e * e) = W * (1024 * (2 * e + e * e))" by simp
    also have "\<dots> < 2 ^ 32 * (1024 * (2 * e + e * e))"
      using Wb k by (rule mult_strict_right_mono)
    also have "\<dots> < 1 / 2" by (simp add: e_def)
    finally show "1024 * W * (2 * e + e * e) < 1 / 2" .
  qed
  finally have "X * e + (X + X * e) * e < 1 / (2 * S)" by simp
  with total have "\<bar>fl (W * c) - X\<bar> < 1 / (2 * S)" by linarith
  then show ?thesis
    by (simp add: W_def S_def X_def c_def)
qed

lemma round_near:
  fixes n s :: nat and P :: rat
  assumes s: "0 < s" and close: "\<bar>P - of_nat n / of_nat s\<bar> < 1 / (2 * of_nat s)"
  shows "\<bar>of_int \<lfloor>P + 1 / 2\<rfloor> - of_nat n / of_nat s\<bar> \<le> (1 / 2 :: rat)"
proof -
  define R where "R = \<lfloor>P + 1 / 2\<rfloor>"
  define S :: rat where "S = of_nat s"
  define N :: rat where "N = of_nat n"
  have S: "0 < S" using s by (simp add: S_def)
  have fl1: "of_int R \<le> P + 1 / 2" and fl2: "P + 1 / 2 < of_int R + 1"
    unfolding R_def by linarith+
  from close have c1: "P < N / S + 1 / (2 * S)" and c2: "N / S - 1 / (2 * S) < P"
    unfolding S_def N_def by linarith+
  have up: "of_int R \<le> N / S + 1 / 2"
  proof -
    have "of_int R < N / S + 1 / (2 * S) + 1 / 2" using fl1 c1 by linarith
    then have "of_int R * (2 * S) < (N / S + 1 / (2 * S) + 1 / 2) * (2 * S)"
      by (rule mult_strict_right_mono) (use S in simp)
    also have "\<dots> = 2 * N + 1 + S"
      using S by (simp add: algebra_simps)
    finally have "of_int R * (2 * S) < 2 * N + 1 + S" .
    then have "(of_int (R * (2 * int s)) :: rat) < of_int (2 * int n + 1 + int s)"
      by (simp add: S_def N_def)
    then have "R * (2 * int s) < 2 * int n + 1 + int s"
      by (simp only: of_int_less_iff)
    then have "R * (2 * int s) \<le> 2 * int n + int s" by linarith
    then have "(of_int (R * (2 * int s)) :: rat) \<le> of_int (2 * int n + int s)"
      by (simp only: of_int_le_iff)
    then have "of_int R * (2 * S) \<le> 2 * N + S"
      by (simp add: S_def N_def)
    then have "of_int R \<le> (2 * N + S) / (2 * S)"
      using S by (simp add: pos_le_divide_eq)
    also have "\<dots> = N / S + 1 / 2"
      using S by (simp add: add_divide_distrib)
    finally show ?thesis .
  qed
  have low: "N / S - 1 / 2 \<le> of_int R"
  proof -
    have "N / S - 1 / (2 * S) - 1 / 2 < of_int R" using fl2 c2 by linarith
    then have "(N / S - 1 / (2 * S) - 1 / 2) * (2 * S) < of_int R * (2 * S)"
      by (rule mult_strict_right_mono) (use S in simp)
    moreover have "(N / S - 1 / (2 * S) - 1 / 2) * (2 * S) = 2 * N - 1 - S"
      using S by (simp add: algebra_simps)
    ultimately have "2 * N - 1 - S < of_int R * (2 * S)"
      by linarith
    then have "(of_int (2 * int n - 1 - int s) :: rat) < of_int (R * (2 * int s))"
      by (simp add: S_def N_def)
    then have "2 * int n - 1 - int s < R * (2 * int s)"
      by (simp only: of_int_less_iff)
    then have "2 * int n - int s \<le> R * (2 * int s)" by linarith
    then have "(of_int (2 * int n - int s) :: rat) \<le> of_int (R * (2 * int s))"
      by (simp only: of_int_le_iff)
    then have "2 * N - S \<le> of_int R * (2 * S)"
      by (simp add: S_def N_def)
    then have "(2 * N - S) / (2 * S) \<le> of_int R"
      using S by (simp add: pos_divide_le_eq)
    moreover have "(2 * N - S) / (2 * S) = N / S - 1 / 2"
      using S by (simp add: diff_divide_distrib)
    ultimately show ?thesis by simp
  qed
  from up low have "\<bar>of_int R - N / S\<bar> \<le> 1 / 2" by linarith
  then show ?thesis
    by (simp only: R_def S_def N_def)
qed

lemma scaled_dimension:
  fixes w s :: nat
  assumes "1024 < s" "s \<le> w" "w < 2 ^ 32"
  shows "\<exists>k. Math_round (fl (of_nat w * fl (SHORT_EDGE_TARGET / of_nat s))) = of_int k \<and>
             \<bar>of_int k - 1024 * of_nat w / of_nat s\<bar> \<le> (1 / 2 :: rat) \<and>
             1024 \<le> k \<and> (w = s \<longrightarrow> k = 1024)"
proof -
  define P where "P = fl (of_nat w * fl (1024 / of_nat s))"
  define k where "k = \<lfloor>P + 1 / 2\<rfloor>"
  have s: "0 < s" using assms(1) by simp
  have "\<bar>P - of_nat (1024 * w) / of_nat s\<bar> < 1 / (2 * of_nat s)"
    using scaled_close [OF assms] by (simp add: P_def)
  from round_near [OF s this]
  have near: "\<bar>of_int k - 1024 * of_nat w / of_nat s\<bar> \<le> (1 / 2 :: rat)"
    by (simp add: k_def)
  have big: "(1024 :: rat) \<le> 1024 * of_nat w / of_nat s"
    using assms(2) s by (simp add: pos_le_divide_eq)
  have "(1024 :: rat) - 1 / 2 \<le> of_int k" using near big by linarith
  then have "(of_int 1023 :: rat) < of_int k" by simp
  then have "1023 < k" by (simp only: of_int_less_iff)
  then have ge: "1024 \<le> k" by simp
  have eq: "k = 1024" if "w = s"
  proof -
    have "1024 * of_nat w / of_nat s = (1024 :: rat)" using that s by simp
    with near have "of_int k \<le> (1024 :: rat) + 1 / 2" by linarith
    then have "(of_int k :: rat) < of_int 1025" by simp
    then have "k < 1025" by (simp only: of_int_less_iff)
    with ge show ?thesis by simp
  qed
  show ?thesis
    using near ge eq by (auto simp: Math_round_def SHORT_EDGE_TARGET_def P_def k_def)
qed

lemma short_edge_test:
  fixes a b :: nat
  shows "min (of_nat a) (of_nat b) = (of_nat (min a b) :: rat)"
    and "(SHORT_EDGE_TARGET < of_nat (min a b)) = (1024 < min a b)"
proof -
  show "min (of_nat a) (of_nat b) = (of_nat (min a b) :: rat)"
    by (rule of_nat_min [symmetric])
  have "((of_nat 1024 :: rat) < of_nat (min a b)) = (1024 < min a b)"
    by (rule of_nat_less_iff)
  then show "(SHORT_EDGE_TARGET < of_nat (min a b)) = (1024 < min a b)"
    by (simp only: SHORT_EDGE_TARGET_def of_nat_numeral)
qed

lemma exportSize_cases:
  "exportSize w h =
     (if 1024 < min (unat w) (unat h)
      then (Math_round (fl (of_nat (unat w) *
                            fl (SHORT_EDGE_TARGET / of_nat (min (unat w) (unat h))))),
            Math_round (fl (of_nat (unat h) *
                            fl (SHORT_EDGE_TARGET / of_nat (min (unat w) (unat h))))))
      else (of_nat (unat w), of_nat (unat h)))"
  by (simp only: exportSize_def Let_def short_edge_test)

lemma exportSize_unscaled:
  "min (unat w) (unat h) \<le> 1024 \<Longrightarrow> exportSize w h = (of_nat (unat w), of_nat (unat h))"
  by (simp only: exportSize_cases not_less [symmetric] if_False)

text \<open>
  C4. For an image of width \<open>w\<close> and height \<open>h\<close> (unsigned 32-bit, as \<^verbatim>\<open>img.width\<close> and
  \<^verbatim>\<open>img.height\<close> are): when the short edge is at most 1024 the canvas gets the width and
  height unchanged; when it is above 1024 the canvas gets integers \<open>W\<close> and \<open>H\<close>, each
  within a half of its dimension times \<open>1024 / min w h\<close>, that is, a nearest integer of
  it, and the smaller of \<open>W\<close> and \<open>H\<close> is 1024 (so within 1 of 1024). The arithmetic is
  that of doubles.
\<close>

theorem export_size_scaling:
  "(min (unat w) (unat h) \<le> 1024 \<longrightarrow>
      exportSize w h = (of_nat (unat w), of_nat (unat h))) \<and>
   (1024 < min (unat w) (unat h) \<longrightarrow>
      (\<exists>W H. exportSize w h = (of_int W, of_int H) \<and>
         \<bar>of_int W - 1024 * of_nat (unat w) / of_nat (min (unat w) (unat h))\<bar> \<le> (1 / 2 :: rat) \<and>
         \<bar>of_int H - 1024 * of_nat (unat h) / of_nat (min (unat w) (unat h))\<bar> \<le> (1 / 2 :: rat) \<and>
         min W H = 1024))"
proof -
  have scaled: "\<exists>W H. exportSize w h = (of_int W, of_int H) \<and>
      \<bar>of_int W - 1024 * of_nat (unat w) / of_nat (min (unat w) (unat h))\<bar> \<le> (1 / 2 :: rat) \<and>
      \<bar>of_int H - 1024 * of_nat (unat h) / of_nat (min (unat w) (unat h))\<bar> \<le> (1 / 2 :: rat) \<and>
      min W H = 1024"
    if "1024 < min (unat w) (unat h)"
  proof -
    define a b s where "a = unat w" and "b = unat h" and "s = min (unat w) (unat h)"
    have s: "1024 < s" "s \<le> a" "s \<le> b" "a = s \<or> b = s"
      using that by (auto simp: a_def b_def s_def min_def)
    have lim: "a < 2 ^ 32" "b < 2 ^ 32"
      using unsigned_less [of w] unsigned_less [of h] by (simp_all add: a_def b_def)
    from scaled_dimension [OF s(1) s(2) lim(1)] obtain W where
      W: "Math_round (fl (of_nat a * fl (SHORT_EDGE_TARGET / of_nat s))) = of_int W"
         "\<bar>of_int W - 1024 * of_nat a / of_nat s\<bar> \<le> (1 / 2 :: rat)"
         "1024 \<le> W" "a = s \<longrightarrow> W = 1024"
      by blast
    from scaled_dimension [OF s(1) s(3) lim(2)] obtain H where
      H: "Math_round (fl (of_nat b * fl (SHORT_EDGE_TARGET / of_nat s))) = of_int H"
         "\<bar>of_int H - 1024 * of_nat b / of_nat s\<bar> \<le> (1 / 2 :: rat)"
         "1024 \<le> H" "b = s \<longrightarrow> H = 1024"
      by blast
    have ex: "exportSize w h = (of_int W, of_int H)"
      using that W(1) H(1)
      by (simp only: exportSize_cases if_True a_def b_def s_def)
    have m: "min W H = 1024"
      using s(4) W(3,4) H(3,4) by (auto simp: min_def)
    show ?thesis
      using ex W(2) H(2) m unfolding a_def b_def s_def by blast
  qed
  show ?thesis
    using exportSize_unscaled [of w h] scaled by blast
qed

theorem export_size_scaling_witness:
  "min (unat (2000 :: 32 word)) (unat (1000 :: 32 word)) \<le> 1024 \<and>
   exportSize 2000 1000 = (2000, 1000) \<and>
   1024 < min (unat (2000 :: 32 word)) (unat (1500 :: 32 word)) \<and>
   exportSize 2000 1500 = (1365, 1024)"
proof -
  have small: "min (unat (2000 :: 32 word)) (unat (1000 :: 32 word)) \<le> 1024"
    by simp
  have big: "1024 < min (unat (2000 :: 32 word)) (unat (1500 :: 32 word))"
    by simp
  have a: "exportSize 2000 1000 = (2000, 1000)"
    using export_size_scaling [of 2000 1000] small by simp
  from export_size_scaling [of 2000 1500] big obtain W H where
    e: "exportSize 2000 1500 = (of_int W, of_int H)"
    and W: "\<bar>of_int W - 1024 * of_nat (unat (2000 :: 32 word)) /
               of_nat (min (unat (2000 :: 32 word)) (unat (1500 :: 32 word)))\<bar> \<le> (1 / 2 :: rat)"
    and H: "\<bar>of_int H - 1024 * of_nat (unat (1500 :: 32 word)) /
               of_nat (min (unat (2000 :: 32 word)) (unat (1500 :: 32 word)))\<bar> \<le> (1 / 2 :: rat)"
    by blast
  from W have "\<bar>(of_int W :: rat) - 4096 / 3\<bar> \<le> 1 / 2" by simp
  then have "(1364 :: rat) < of_int W" "(of_int W :: rat) < 1366"
    by linarith+
  then have "1364 < W" "W < 1366" by simp_all
  then have W': "W = 1365" by simp
  from H have "\<bar>(of_int H :: rat) - 1024\<bar> \<le> 1 / 2" by simp
  then have "(1023 :: rat) < of_int H" "(of_int H :: rat) < 1025"
    by linarith+
  then have "1023 < H" "H < 1025" by simp_all
  then have H': "H = 1024" by simp
  have b: "exportSize 2000 1500 = (1365, 1024)"
    using e W' H' by simp
  show ?thesis
    by (rule conjI [OF small conjI [OF a conjI [OF big b]]])
qed

section \<open>Properties of the Serializer\<close>

lemma transcodeStep_payload:
  "fst (transcodeStep h cb (fn_type n) (fn_file n) st) = payloadOf h n"
  by (simp add: transcodeStep_def payloadOf_def Let_def split: node_type.splits option.splits)

lemma transcodeStep_state:
  "snd (transcodeStep h cb (fn_type n) (fn_file n) st) =
     (callbackRuns cb (length (List.map_filter sourceOf [n])) (fst st),
      snd st @ concat (map (progressEvents cb) (List.map_filter sourceOf [n])))"
  by (simp add: transcodeStep_def Let_def callbackRuns_def progressEvents_def sourceOf_def
      List.map_filter_def split: node_type.splits option.splits)

lemma map_filter_append: "List.map_filter f (xs @ ys) = List.map_filter f xs @ List.map_filter f ys"
  by (simp add: List.map_filter_def)

lemma callbackRuns_add:
  "callbackRuns cb (j + k) s = callbackRuns cb k (callbackRuns cb j s)"
proof (cases cb)
  case None
  then show ?thesis by (simp add: callbackRuns_def)
next
  case (Some callback)
  have "(callback ^^ (k + j)) s = (callback ^^ k) ((callback ^^ j) s)"
    by (simp add: funpow_add)
  then show ?thesis using Some by (simp add: callbackRuns_def add.commute)
qed

lemma serialize_rows:
  "list_all2 (serializes h) (nodes n) (snodes (fst (serializeTree h cb n st)))"
  "length (fst (serializeChildren h cb cs st)) = length cs \<and>
   list_all2 (serializes h) (concat (map nodes cs))
     (concat (map snodes (fst (serializeChildren h cb cs st))))"
proof (induction h cb n st and h cb cs st rule: serializeTree_serializeChildren.induct)
  case (1 h onProgress i nm p t cs f u d st)
  let ?n = "FileNode i nm p t cs f u d"
  let ?st1 = "snd (transcodeStep h onProgress t f st)"
  have th: "fst (transcodeStep h onProgress t f st) = payloadOf h ?n"
    using transcodeStep_payload [of h onProgress ?n st] by simp
  have ch: "length (fst (serializeChildren h onProgress cs ?st1)) = length cs"
    and rows: "list_all2 (serializes h) (concat (map nodes cs))
       (concat (map snodes (fst (serializeChildren h onProgress cs ?st1))))"
    using "1.IH" [of "(fst (transcodeStep h onProgress t f st), ?st1)" "fst (transcodeStep h onProgress t f st)" ?st1]
    by simp_all
  have hd: "serializes h ?n
      (SerializedNode i nm p t (fst (serializeChildren h onProgress cs ?st1))
         (fst (transcodeStep h onProgress t f st)) d)"
    using th ch by (simp add: serializes_def)
  show ?case
    using hd rows by (simp add: case_prod_beta)
next
  case (2 h onProgress st)
  show ?case by simp
next
  case (3 h onProgress child rest st)
  let ?r = "serializeTree h onProgress child st"
  have a: "list_all2 (serializes h) (nodes child) (snodes (fst ?r))"
    using "3.IH"(1) .
  have b: "length (fst (serializeChildren h onProgress rest (snd ?r))) = length rest \<and>
     list_all2 (serializes h) (concat (map nodes rest))
       (concat (map snodes (fst (serializeChildren h onProgress rest (snd ?r)))))"
    using "3.IH"(2) [of ?r "fst ?r" "snd ?r"] by simp
  show ?case
    using a b by (simp add: case_prod_beta list_all2_appendI)
qed

lemma serialize_state:
  "snd (serializeTree h cb n st) =
     (callbackRuns cb (length (transcodedFiles n)) (fst st),
      snd st @ concat (map (progressEvents cb) (transcodedFiles n)))"
  "snd (serializeChildren h cb cs st) =
     (callbackRuns cb (length (List.map_filter sourceOf (concat (map nodes cs)))) (fst st),
      snd st @ concat (map (progressEvents cb) (List.map_filter sourceOf (concat (map nodes cs)))))"
proof (induction h cb n st and h cb cs st rule: serializeTree_serializeChildren.induct)
  case (1 h onProgress i nm p t cs f u d st)
  let ?n = "FileNode i nm p t cs f u d"
  let ?st1 = "snd (transcodeStep h onProgress t f st)"
  have s1: "?st1 = (callbackRuns onProgress (length (List.map_filter sourceOf [?n])) (fst st),
      snd st @ concat (map (progressEvents onProgress) (List.map_filter sourceOf [?n])))"
    using transcodeStep_state [of h onProgress ?n st] by simp
  have ch: "snd (serializeChildren h onProgress cs ?st1) =
     (callbackRuns onProgress (length (List.map_filter sourceOf (concat (map nodes cs)))) (fst ?st1),
      snd ?st1 @ concat (map (progressEvents onProgress) (List.map_filter sourceOf (concat (map nodes cs)))))"
    using "1.IH" [of "(fst (transcodeStep h onProgress t f st), ?st1)" "fst (transcodeStep h onProgress t f st)" ?st1]
    by simp
  have unf: "transcodedFiles ?n =
      List.map_filter sourceOf [?n] @ List.map_filter sourceOf (concat (map nodes cs))"
    by (simp add: transcodedFiles_def List.map_filter_def)
  show ?case
    unfolding unf
    using ch s1 by (simp add: case_prod_beta callbackRuns_add)
next
  case (2 h onProgress st)
  show ?case by (simp add: List.map_filter_def callbackRuns_def split: option.splits)
next
  case (3 h onProgress child rest st)
  let ?r = "serializeTree h onProgress child st"
  have a: "snd ?r = (callbackRuns onProgress (length (transcodedFiles child)) (fst st),
      snd st @ concat (map (progressEvents onProgress) (transcodedFiles child)))"
    using "3.IH"(1) .
  have b: "snd (serializeChildren h onProgress rest (snd ?r)) =
     (callbackRuns onProgress (length (List.map_filter sourceOf (concat (map nodes rest)))) (fst (snd ?r)),
      snd (snd ?r) @ concat (map (progressEvents onProgress) (List.map_filter sourceOf (concat (map nodes rest)))))"
    using "3.IH"(2) [of ?r "fst ?r" "snd ?r"] by simp
  show ?case
    using a b
    by (simp add: case_prod_beta callbackRuns_add map_filter_append transcodedFiles_def)
qed

lemma processImageForExport_transcode:
  "processImageForExport h f =
     (case transcode h f of Raised \<Rightarrow> Throw | Encoded payload \<Rightarrow> Normal payload | _ \<Rightarrow> Normal [])"
  by (simp add: processImageForExport_def transcode_def case_prod_beta Let_def
      split: read_result.splits option.splits)

lemma payloadOf_transcode:
  "payloadOf h n =
     (if fn_type n = TFile
      then (case fn_file n of
              None \<Rightarrow> None
            | Some f \<Rightarrow> (case transcode h f of
                          Raised \<Rightarrow> None | Encoded payload \<Rightarrow> Some payload | _ \<Rightarrow> Some []))
      else None)"
  by (simp add: payloadOf_def processImageForExport_transcode
      split: node_type.splits option.splits outcome.splits)

lemma hasProperty_isDeleted:
  "hasProperty (JSON_stringify s) ''isDeleted'' \<longleftrightarrow> sn_isDeleted s \<noteq> None"
  by (cases s) (auto simp: hasProperty_def split: option.splits)

lemma hasProperty_thumbnailData:
  "hasProperty (JSON_stringify s) ''thumbnailData'' \<longleftrightarrow> sn_thumbnailData s \<noteq> None"
  by (cases s) (auto simp: hasProperty_def split: option.splits)

lemma allLocal_iff:
  "allLocal Q n \<longleftrightarrow> Q (fn_type n) (fn_file n) (fn_isDeleted n) \<and> (\<forall>c \<in> set (fn_children n). allLocal Q c)"
  by (cases n) simp

lemma allLocal_nodes:
  "allLocal Q n \<Longrightarrow> m \<in> set (nodes n) \<Longrightarrow> Q (fn_type m) (fn_file m) (fn_isDeleted m)"
proof (induction n arbitrary: m)
  case (FileNode i nm p t cs f u d)
  from FileNode.prems(2) consider "m = FileNode i nm p t cs f u d"
    | c where "c \<in> set cs" "m \<in> set (nodes c)"
    by auto
  then show ?case
  proof cases
    case 1
    then show ?thesis using FileNode.prems(1) by simp
  next
    case 2
    then show ?thesis using FileNode.IH [of c m] FileNode.prems(1) by simp
  qed
qed

lemma walkParts_allLocal:
  "Q TFile (Some f) (Some False) \<Longrightarrow> Q TFolder None None \<Longrightarrow> allLocal Q n \<Longrightarrow>
   allLocal Q (fst (walkParts f n ps))"
proof (induction f n ps rule: walkParts.induct)
  case (1 f currentNode)
  then show ?case by simp
next
  case (2 f currentNode part)
  then show ?case
    by (simp add: allLocal_iff [of _ "setChildren _ _"] allLocal_iff [of _ currentNode]
        newFileNode_def Let_def)
next
  case (3 f currentNode part p2 rest)
  let ?cs = "fn_children currentNode"
  from "3.prems"(3) have q: "Q (fn_type currentNode) (fn_file currentNode) (fn_isDeleted currentNode)"
    and u: "\<forall>c \<in> set ?cs. allLocal Q c"
    by (simp_all add: allLocal_iff [of _ currentNode])
  show ?case
  proof (cases "findIndex (isFolderNamed part) ?cs")
    case None
    have new: "allLocal Q (newFolderNode currentNode part)"
      using "3.prems"(2) by (simp add: newFolderNode_def)
    have sub: "allLocal Q (fst (walkParts f (newFolderNode currentNode part) (p2 # rest)))"
      using "3.IH"(1) [OF None "3.prems"(1,2) new] .
    show ?thesis
      using None q u sub
      by (simp add: allLocal_iff [of _ "setChildren _ _"] case_prod_beta)
  next
    case (Some k)
    then have k: "k < length ?cs" by (auto dest: findIndex_Some)
    have "allLocal Q (?cs ! k)" using u k by simp
    then have sub: "allLocal Q (fst (walkParts f (?cs ! k) (p2 # rest)))"
      using "3.IH"(2) [OF Some "3.prems"(1,2)] by simp
    have "\<forall>c \<in> set (?cs[k := fst (walkParts f (?cs ! k) (p2 # rest))]). allLocal Q c"
      using u sub by (auto dest!: set_update_subset_insert [THEN subsetD])
    then show ?thesis
      using Some q
      by (simp add: allLocal_iff [of _ "setChildren _ _"] case_prod_beta)
  qed
qed

lemma ingest_asBuilt: "allLocal asBuilt (fst st) \<Longrightarrow> allLocal asBuilt (fst (ingest f st))"
  using walkParts_allLocal [of asBuilt f "fst st" "pathPartsOf f"]
  by (simp add: ingest_def case_prod_beta asBuilt_def)

lemma fold_ingest_asBuilt:
  "allLocal asBuilt (fst st) \<Longrightarrow> allLocal asBuilt (fst (fold ingest files st))"
  by (induction files arbitrary: st) (simp_all add: ingest_asBuilt)

lemma parse_asBuilt: "allLocal asBuilt (fst (parseFilesToTree files))"
  unfolding parseFilesToTree_def
  by (rule fold_ingest_asBuilt) (simp add: emptyRoot_def asBuilt_def)

lemma parse_nodes_asBuilt:
  "m \<in> set (nodes (fst (parseFilesToTree files))) \<Longrightarrow>
   asBuilt (fn_type m) (fn_file m) (fn_isDeleted m)"
  by (rule allLocal_nodes [OF parse_asBuilt])

lemma serialize_rows_tree:
  "list_all2 (serializes h) (nodes n) (snodes (fst (serializeTree h cb n st)))"
  by (rule serialize_rows(1))

subsection \<open>The soft-delete flag in the output\<close>

text \<open>
  C2, as amended. Every node of the output has the \<^verbatim>\<open>isDeleted\<close> of the node it was made
  from, and its JSON object has an \<^verbatim>\<open>isDeleted\<close> property exactly when that node has the
  flag set (to true or to false). In a tree as the Ingestion Builder returns it the file
  nodes have the flag (false) and the folder nodes do not have it.
\<close>

theorem isDeleted_mirrored:
  "list_all2
     (\<lambda>n s. sn_isDeleted s = fn_isDeleted n \<and>
            hasProperty (JSON_stringify s) ''isDeleted'' = (fn_isDeleted n \<noteq> None))
     (nodes n) (snodes (fst (serializeTree h cb n st))) \<and>
   map fn_isDeleted (nodes (fst (parseFilesToTree files))) =
     map (\<lambda>m. if fn_type m = TFile then Some False else None)
       (nodes (fst (parseFilesToTree files)))"
proof -
  have "list_all2
     (\<lambda>n s. sn_isDeleted s = fn_isDeleted n \<and>
            hasProperty (JSON_stringify s) ''isDeleted'' = (fn_isDeleted n \<noteq> None))
     (nodes n) (snodes (fst (serializeTree h cb n st)))"
    by (rule list_all2_mono [OF serialize_rows_tree])
       (simp add: serializes_def hasProperty_isDeleted)
  moreover have "fn_isDeleted m = (if fn_type m = TFile then Some False else None)"
    if "m \<in> set (nodes (fst (parseFilesToTree files)))" for m
    using parse_nodes_asBuilt [OF that]
    by (cases "fn_type m") (simp_all add: asBuilt_def)
  ultimately show ?thesis by simp
qed

lemma serializeTree_root:
  "sn_isDeleted (fst (serializeTree h cb n st)) = fn_isDeleted n"
  "sn_thumbnailData (fst (serializeTree h cb n st)) = payloadOf h n"
  using transcodeStep_payload [of h cb n st]
  by (cases n; simp add: case_prod_beta)+

lemma scene_tree:
  "fst (parseFilesToTree sceneFiles) =
     FileNode ''root'' ''Root'' [] TFolder
       [FileNode ''/photos'' ''photos'' ''photos'' TFolder
          [FileNode ''photos/a.png'' ''a.png'' ''photos/a.png'' TFile []
             (Some (fileAt ''photos/a.png'' ''a.png'' ''image/png''))
             (Some (ObjectURL [])) (Some False),
           FileNode ''photos/sub'' ''sub'' ''photos/sub'' TFolder
             [FileNode ''photos/sub/b.png'' ''b.png'' ''photos/sub/b.png'' TFile []
                (Some (fileAt ''photos/sub/b.png'' ''b.png'' ''image/png''))
                (Some (ObjectURL [])) (Some False)]
             None None None]
          None None None]
       None None None"
  by (simp add: parseFilesToTree_def emptyRoot_def ingest_def
      sceneFiles_def fileAt_def startsWith_def pathPartsOf_def newFolderNode_def newFileNode_def
      isFolderNamed_def Let_def case_prod_beta createObjectURL_def)

text \<open>
  The claim as stated fails: the JSON object of the root of an ingested tree has no
  \<^verbatim>\<open>isDeleted\<close> property.
\<close>

theorem isDeleted_absent_on_built_folders:
  "\<not> hasProperty
       (JSON_stringify (fst (serializeTree flakyHost (None :: (unit \<Rightarrow> unit) option)
          (fst (parseFilesToTree sceneFiles)) ((), []))))
       ''isDeleted''"
  by (simp only: hasProperty_isDeleted serializeTree_root) (simp add: scene_tree)

subsection \<open>The thumbnail in the output\<close>

text \<open>
  C3, as amended. Every node of the output has the payload \<open>payloadOf\<close> of the node it
  was made from, and its JSON object has a \<^verbatim>\<open>thumbnailData\<close> property exactly when there
  is one. There is one exactly for a file node with a source whose transcode call did
  not raise: the encoder's text when the transcode succeeded, and the empty text when the
  read failed, the image did not decode or the canvas had no context.
\<close>

theorem thumbnailData_presence:
  "list_all2
     (\<lambda>n s. sn_thumbnailData s = payloadOf h n \<and>
            hasProperty (JSON_stringify s) ''thumbnailData'' = (payloadOf h n \<noteq> None))
     (nodes n) (snodes (fst (serializeTree h cb n st))) \<and>
   payloadOf h m =
     (if fn_type m = TFile
      then (case fn_file m of
              None \<Rightarrow> None
            | Some f \<Rightarrow> (case transcode h f of
                          Raised \<Rightarrow> None | Encoded payload \<Rightarrow> Some payload | _ \<Rightarrow> Some []))
      else None)"
proof -
  have "list_all2
     (\<lambda>n s. sn_thumbnailData s = payloadOf h n \<and>
            hasProperty (JSON_stringify s) ''thumbnailData'' = (payloadOf h n \<noteq> None))
     (nodes n) (snodes (fst (serializeTree h cb n st)))"
    by (rule list_all2_mono [OF serialize_rows_tree])
       (simp add: serializes_def hasProperty_thumbnailData)
  then show ?thesis
    using payloadOf_transcode [of h m] by simp
qed

lemma exportSize_small: "exportSize 500 500 = (500, 500)"
  by (simp add: exportSize_def SHORT_EDGE_TARGET_def Let_def)

lemma flaky_a: "processImageForExport flakyHost (fileAt ''photos/a.png'' ''a.png'' ''image/png'') = Normal []"
  by (simp add: processImageForExport_def flakyHost_def fileAt_def)

lemma flaky_b:
  "processImageForExport flakyHost (fileAt ''photos/sub/b.png'' ''b.png'' ''image/png'') =
     Normal ''data:image/jpeg;base64,QUJD''"
  by (simp add: processImageForExport_def flakyHost_def fileAt_def exportSize_small)

lemma scene_snapshot:
  "serializeTree flakyHost (Some countProcessed) (fst (parseFilesToTree sceneFiles)) (0, []) =
     (SerializedNode ''root'' ''Root'' [] TFolder
        [SerializedNode ''/photos'' ''photos'' ''photos'' TFolder
           [SerializedNode ''photos/a.png'' ''a.png'' ''photos/a.png'' TFile [] (Some []) (Some False),
            SerializedNode ''photos/sub'' ''sub'' ''photos/sub'' TFolder
              [SerializedNode ''photos/sub/b.png'' ''b.png'' ''photos/sub/b.png'' TFile []
                 (Some ''data:image/jpeg;base64,QUJD'') (Some False)]
              None None]
           None None]
        None None,
      (2, [Transcoded (fileAt ''photos/a.png'' ''a.png'' ''image/png''), Progress,
           Transcoded (fileAt ''photos/sub/b.png'' ''b.png'' ''image/png''), Progress]))"
  by (simp add: scene_tree transcodeStep_def flaky_a flaky_b countProcessed_def)

text \<open>
  The claim as stated fails: the read of a.png fails, and its node in the output has a
  \<^verbatim>\<open>thumbnailData\<close> property, the empty text.
\<close>

theorem thumbnailData_present_after_failure:
  "transcode flakyHost (fileAt ''photos/a.png'' ''a.png'' ''image/png'') = ReadFailed \<and>
   fst (serializeTree flakyHost (Some countProcessed) (fst (parseFilesToTree sceneFiles)) (0, [])) =
     SerializedNode ''root'' ''Root'' [] TFolder
       [SerializedNode ''/photos'' ''photos'' ''photos'' TFolder
          [SerializedNode ''photos/a.png'' ''a.png'' ''photos/a.png'' TFile [] (Some []) (Some False),
           SerializedNode ''photos/sub'' ''sub'' ''photos/sub'' TFolder
             [SerializedNode ''photos/sub/b.png'' ''b.png'' ''photos/sub/b.png'' TFile []
                (Some ''data:image/jpeg;base64,QUJD'') (Some False)]
             None None]
          None None]
       None None \<and>
   sn_thumbnailData
     (SerializedNode ''photos/a.png'' ''a.png'' ''photos/a.png'' TFile [] (Some []) (Some False)) \<noteq> None \<and>
   hasProperty
     (JSON_stringify
        (SerializedNode ''photos/a.png'' ''a.png'' ''photos/a.png'' TFile [] (Some []) (Some False)))
     ''thumbnailData''"
proof -
  have "transcode flakyHost (fileAt ''photos/a.png'' ''a.png'' ''image/png'') = ReadFailed"
    by (simp add: transcode_def flakyHost_def fileAt_def)
  then show ?thesis
    by (simp add: scene_snapshot hasProperty_def)
qed

theorem isDeleted_mirrored_witness:
  "list_all2
     (\<lambda>n s. sn_isDeleted s = fn_isDeleted n \<and>
            hasProperty (JSON_stringify s) ''isDeleted'' = (fn_isDeleted n \<noteq> None))
     (nodes (fst (parseFilesToTree sceneFiles)))
     (snodes (fst (serializeTree flakyHost (Some countProcessed)
        (fst (parseFilesToTree sceneFiles)) (0, [])))) \<and>
   map fn_isDeleted (nodes (fst (parseFilesToTree sceneFiles))) =
     [None, None, Some False, None, Some False] \<and>
   map sn_isDeleted (snodes (fst (serializeTree flakyHost (Some countProcessed)
        (fst (parseFilesToTree sceneFiles)) (0, [])))) =
     [None, None, Some False, None, Some False]"
proof -
  have a: "list_all2
     (\<lambda>n s. sn_isDeleted s = fn_isDeleted n \<and>
            hasProperty (JSON_stringify s) ''isDeleted'' = (fn_isDeleted n \<noteq> None))
     (nodes (fst (parseFilesToTree sceneFiles)))
     (snodes (fst (serializeTree flakyHost (Some countProcessed)
        (fst (parseFilesToTree sceneFiles)) (0, []))))"
    using isDeleted_mirrored [of "fst (parseFilesToTree sceneFiles)" flakyHost
        "Some countProcessed" "(0, [])" sceneFiles]
    by (rule conjunct1)
  have b: "map fn_isDeleted (nodes (fst (parseFilesToTree sceneFiles))) =
     [None, None, Some False, None, Some False]"
    by (simp add: scene_tree)
  have c: "map sn_isDeleted (snodes (fst (serializeTree flakyHost (Some countProcessed)
        (fst (parseFilesToTree sceneFiles)) (0, [])))) =
     [None, None, Some False, None, Some False]"
    by (simp add: scene_snapshot)
  show ?thesis
    by (rule conjI [OF a conjI [OF b c]])
qed

theorem thumbnailData_presence_witness:
  "list_all2
     (\<lambda>n s. sn_thumbnailData s = payloadOf flakyHost n \<and>
            hasProperty (JSON_stringify s) ''thumbnailData'' = (payloadOf flakyHost n \<noteq> None))
     (nodes (fst (parseFilesToTree sceneFiles)))
     (snodes (fst (serializeTree flakyHost (Some countProcessed)
        (fst (parseFilesToTree sceneFiles)) (0, [])))) \<and>
   map (payloadOf flakyHost) (nodes (fst (parseFilesToTree sceneFiles))) =
     [None, None, Some [], None, Some ''data:image/jpeg;base64,QUJD''] \<and>
   map sn_thumbnailData (snodes (fst (serializeTree flakyHost (Some countProcessed)
        (fst (parseFilesToTree sceneFiles)) (0, [])))) =
     [None, None, Some [], None, Some ''data:image/jpeg;base64,QUJD'']"
proof -
  have a: "list_all2
     (\<lambda>n s. sn_thumbnailData s = payloadOf flakyHost n \<and>
            hasProperty (JSON_stringify s) ''thumbnailData'' = (payloadOf flakyHost n \<noteq> None))
     (nodes (fst (parseFilesToTree sceneFiles)))
     (snodes (fst (serializeTree flakyHost (Some countProcessed)
        (fst (parseFilesToTree sceneFiles)) (0, []))))"
    using thumbnailData_presence [of flakyHost "fst (parseFilesToTree sceneFiles)"
        "Some countProcessed" "(0, [])" "fst (parseFilesToTree sceneFiles)"]
    by (rule conjunct1)
  have b: "map (payloadOf flakyHost) (nodes (fst (parseFilesToTree sceneFiles))) =
     [None, None, Some [], None, Some ''data:image/jpeg;base64,QUJD'']"
    by (simp add: scene_tree payloadOf_def flaky_a flaky_b)
  have c: "map sn_thumbnailData (snodes (fst (serializeTree flakyHost (Some countProcessed)
        (fst (parseFilesToTree sceneFiles)) (0, [])))) =
     [None, None, Some [], None, Some ''data:image/jpeg;base64,QUJD'']"
    by (simp add: scene_snapshot)
  show ?thesis
    by (rule conjI [OF a conjI [OF b c]])
qed

lemma map_filter_sources:
  "\<forall>x \<in> set xs. isFileNode x \<longrightarrow> fn_file x \<noteq> None \<Longrightarrow>
   map Some (List.map_filter sourceOf xs) = map fn_file (filter isFileNode xs)"
  by (induction xs) (auto simp: List.map_filter_def sourceOf_def isFileNode_def)

lemma built_sources:
  "map Some (transcodedFiles (fst (parseFilesToTree files))) =
   map fn_file (filter isFileNode (nodes (fst (parseFilesToTree files))))"
  unfolding transcodedFiles_def
proof (rule map_filter_sources, intro ballI impI)
  fix x assume "x \<in> set (nodes (fst (parseFilesToTree files)))" "isFileNode x"
  then show "fn_file x \<noteq> None"
    using parse_nodes_asBuilt [of x files] by (simp add: asBuilt_def isFileNode_def)
qed

lemma countProcessed_funpow: "(countProcessed ^^ k) c = c + k"
  by (induction k) (simp_all add: countProcessed_def)

subsection \<open>Progress\<close>

text \<open>
  C5, as amended. A walk with a callback calls it once for each file node that has a
  source, right after the transcode of that file, in depth-first order of the nodes, and
  at no other moment; the counter of the caller grows by one at each call and ends at the
  number of these nodes. In a tree as the Ingestion Builder returns it every file node has
  a source, so that number is the number of file nodes.
\<close>

theorem progress_once_per_transcoded_file:
  "snd (serializeTree h (Some cb) n (s, evs)) =
     ((cb ^^ length (transcodedFiles n)) s,
      evs @ concat (map (\<lambda>f. [Transcoded f, Progress]) (transcodedFiles n))) \<and>
   fst (snd (serializeTree h (Some countProcessed) n (c, evs))) = c + length (transcodedFiles n) \<and>
   map Some (transcodedFiles (fst (parseFilesToTree files))) =
     map fn_file (filter isFileNode (nodes (fst (parseFilesToTree files)))) \<and>
   length (transcodedFiles (fst (parseFilesToTree files))) =
     length (filter isFileNode (nodes (fst (parseFilesToTree files))))"
proof -
  have a: "snd (serializeTree h (Some cb) n (s, evs)) =
     ((cb ^^ length (transcodedFiles n)) s,
      evs @ concat (map (\<lambda>f. [Transcoded f, Progress]) (transcodedFiles n)))"
    by (simp add: serialize_state(1) callbackRuns_def progressEvents_def [abs_def])
  have b: "fst (snd (serializeTree h (Some countProcessed) n (c, evs))) = c + length (transcodedFiles n)"
    by (simp add: serialize_state(1) callbackRuns_def countProcessed_funpow)
  have "length (map Some (transcodedFiles (fst (parseFilesToTree files)))) =
      length (map fn_file (filter isFileNode (nodes (fst (parseFilesToTree files)))))"
    by (simp only: built_sources)
  then have d: "length (transcodedFiles (fst (parseFilesToTree files))) =
     length (filter isFileNode (nodes (fst (parseFilesToTree files))))"
    by simp
  show ?thesis using a b built_sources d by blast
qed

theorem progress_once_per_transcoded_file_witness:
  "fst (snd (serializeTree flakyHost (Some countProcessed)
      (fst (parseFilesToTree sceneFiles)) (0, []))) =
     0 + length (transcodedFiles (fst (parseFilesToTree sceneFiles))) \<and>
   snd (serializeTree flakyHost (Some countProcessed) (fst (parseFilesToTree sceneFiles)) (0, [])) =
     (2, [Transcoded (fileAt ''photos/a.png'' ''a.png'' ''image/png''), Progress,
          Transcoded (fileAt ''photos/sub/b.png'' ''b.png'' ''image/png''), Progress]) \<and>
   length (filter isFileNode (nodes (fst (parseFilesToTree sceneFiles)))) = 2"
proof -
  have a: "fst (snd (serializeTree flakyHost (Some countProcessed)
      (fst (parseFilesToTree sceneFiles)) (0, []))) =
     0 + length (transcodedFiles (fst (parseFilesToTree sceneFiles)))"
    using progress_once_per_transcoded_file [of flakyHost countProcessed
      "fst (parseFilesToTree sceneFiles)" 0 "[]" 0 sceneFiles]
    by (rule conjunct2 [THEN conjunct1])
  have b: "snd (serializeTree flakyHost (Some countProcessed) (fst (parseFilesToTree sceneFiles)) (0, [])) =
     (2, [Transcoded (fileAt ''photos/a.png'' ''a.png'' ''image/png''), Progress,
          Transcoded (fileAt ''photos/sub/b.png'' ''b.png'' ''image/png''), Progress])"
    by (simp add: scene_snapshot)
  have c: "length (filter isFileNode (nodes (fst (parseFilesToTree sceneFiles)))) = 2"
    by (simp add: scene_tree isFileNode_def)
  show ?thesis
    by (rule conjI [OF a conjI [OF b c]])
qed

lemma restoredTree_provenance:
  "deserializeTree flakyHost
     (fst (serializeTree flakyHost (None :: (unit \<Rightarrow> unit) option)
        (fst (parseFilesToTree [fileAt ''a.png'' ''a.png'' ''image/png''])) ((), []))) =
   Normal (restoredTree, [])"
  by (simp add: parseFilesToTree_def emptyRoot_def ingest_def fileAt_def startsWith_def
      pathPartsOf_def newFileNode_def Let_def transcodeStep_def processImageForExport_def
      flakyHost_def restoredTree_def)

text \<open>
  The claim as stated fails on a tree restored from a snapshot: a file node whose
  transcode had failed at export comes back without a source (\<open>restoredTree\<close>), and
  exporting again calls the callback for none of its file nodes.
\<close>

theorem progress_skips_file_without_source:
  "length (filter isFileNode (nodes restoredTree)) = 1 \<and>
   serializeTree flakyHost (Some countProcessed) restoredTree (0, []) =
     (SerializedNode ''root'' ''Root'' [] TFolder
        [SerializedNode ''/a.png'' ''a.png'' ''a.png'' TFile [] None (Some False)]
        None (Some False),
      (0, []))"
  by (simp add: restoredTree_def isFileNode_def transcodeStep_def)

subsection \<open>A failing transcode\<close>

text \<open>
  On a browser where the calls inside \<^verbatim>\<open>img.onload\<close> return, the walk returns the whole
  tree whatever the transcodes do: the nodes of the output are, in depth-first order, the
  nodes of the input with their id, name, path, type, flag and number of children, each
  with the payload of its own file; every file with a source is transcoded, in that
  order. A file whose transcode fails (the read raises or fails, the image does not
  decode, there is no context) gets no payload or the empty one, and a file whose encoder
  answers gets the encoder's text.
\<close>

theorem failure_does_not_abort_walk:
  "list_all2
     (\<lambda>n s. sn_id s = fn_id n \<and> sn_name s = fn_name n \<and> sn_path s = fn_path n \<and>
            sn_type s = fn_type n \<and> sn_isDeleted s = fn_isDeleted n \<and>
            length (sn_children s) = length (fn_children n) \<and>
            sn_thumbnailData s = payloadOf h n)
     (nodes n) (snodes (fst (serializeTree h cb n st))) \<and>
   filter (\<lambda>e. e \<noteq> Progress) (snd (snd (serializeTree h cb n (s0, [])))) =
     map Transcoded (transcodedFiles n) \<and>
   (fn_type m = TFile \<and> fn_file m = Some f \<and> transcode h f \<in> {Raised, ReadFailed, DecodeFailed, NoContext} \<longrightarrow>
      payloadOf h m = None \<or> payloadOf h m = Some []) \<and>
   (fn_type m = TFile \<and> fn_file m = Some f \<and> transcode h f = Encoded payload \<longrightarrow>
      payloadOf h m = Some payload)"
proof -
  have rows: "list_all2
     (\<lambda>n s. sn_id s = fn_id n \<and> sn_name s = fn_name n \<and> sn_path s = fn_path n \<and>
            sn_type s = fn_type n \<and> sn_isDeleted s = fn_isDeleted n \<and>
            length (sn_children s) = length (fn_children n) \<and>
            sn_thumbnailData s = payloadOf h n)
     (nodes n) (snodes (fst (serializeTree h cb n st)))"
    by (rule list_all2_mono [OF serialize_rows_tree]) (simp add: serializes_def)
  have ev: "filter (\<lambda>e. e \<noteq> Progress) (concat (map (progressEvents cb) fs)) = map Transcoded fs" for fs
    by (induction fs) (simp_all add: progressEvents_def split: option.splits)
  have log: "filter (\<lambda>e. e \<noteq> Progress) (snd (snd (serializeTree h cb n (s0, [])))) =
     map Transcoded (transcodedFiles n)"
    by (simp add: serialize_state(1) ev)
  have fail: "payloadOf h m = None \<or> payloadOf h m = Some []"
    if "fn_type m = TFile" "fn_file m = Some f"
       "transcode h f \<in> {Raised, ReadFailed, DecodeFailed, NoContext}"
    using that by (auto simp: payloadOf_transcode)
  have ok: "payloadOf h m = Some payload"
    if "fn_type m = TFile" "fn_file m = Some f" "transcode h f = Encoded payload"
    using that by (simp add: payloadOf_transcode)
  show ?thesis using rows log fail ok by blast
qed

theorem failure_does_not_abort_walk_witness:
  "transcode flakyHost (fileAt ''photos/a.png'' ''a.png'' ''image/png'') = ReadFailed \<and>
   transcode flakyHost (fileAt ''photos/sub/b.png'' ''b.png'' ''image/png'') =
     Encoded ''data:image/jpeg;base64,QUJD'' \<and>
   map (\<lambda>s. (sn_name s, sn_thumbnailData s))
     (snodes (fst (serializeTree flakyHost (Some countProcessed)
        (fst (parseFilesToTree sceneFiles)) (0, [])))) =
     [(''Root'', None), (''photos'', None), (''a.png'', Some []),
      (''sub'', None), (''b.png'', Some ''data:image/jpeg;base64,QUJD'')] \<and>
   filter (\<lambda>e. e \<noteq> Progress) (snd (snd (serializeTree flakyHost (Some countProcessed)
        (fst (parseFilesToTree sceneFiles)) (0, [])))) =
     [Transcoded (fileAt ''photos/a.png'' ''a.png'' ''image/png''),
      Transcoded (fileAt ''photos/sub/b.png'' ''b.png'' ''image/png'')] \<and>
   (payloadOf flakyHost (FileNode ''photos/a.png'' ''a.png'' ''photos/a.png'' TFile []
             (Some (fileAt ''photos/a.png'' ''a.png'' ''image/png''))
             (Some (ObjectURL [])) (Some False)) = None \<or>
    payloadOf flakyHost (FileNode ''photos/a.png'' ''a.png'' ''photos/a.png'' TFile []
             (Some (fileAt ''photos/a.png'' ''a.png'' ''image/png''))
             (Some (ObjectURL [])) (Some False)) = Some [])"
proof -
  have t: "transcode flakyHost (fileAt ''photos/a.png'' ''a.png'' ''image/png'') = ReadFailed"
    "transcode flakyHost (fileAt ''photos/sub/b.png'' ''b.png'' ''image/png'') =
       Encoded ''data:image/jpeg;base64,QUJD''"
    by (simp_all add: transcode_def flakyHost_def fileAt_def exportSize_small)
  show ?thesis
    using failure_does_not_abort_walk [of flakyHost "fst (parseFilesToTree sceneFiles)"
        "Some countProcessed" "(0, [])" 0
        "FileNode ''photos/a.png'' ''a.png'' ''photos/a.png'' TFile []
             (Some (fileAt ''photos/a.png'' ''a.png'' ''image/png''))
             (Some (ObjectURL [])) (Some False)"
        "fileAt ''photos/a.png'' ''a.png'' ''image/png''"] t
    by (simp add: scene_snapshot)
qed

subsection \<open>A transcode that never settles\<close>

text \<open>
  The walk on a browser, in full: it transcodes the files up to the first one whose
  promise stays pending, calling the callback after each, and stays at that one; it
  returns, with the output and the state of \<open>serializeTree\<close>, exactly when there is none.
\<close>

lemma promise_settled:
  "settles b f \<Longrightarrow>
   processImageForExport_promise b f = Settled (processImageForExport (host.truncate b) f)"
  by (auto simp: settles_def processImageForExport_promise_def processImageForExport_def
      host.truncate_def Let_def split: read_result.splits option.splits prod.splits if_splits)

lemma stateAfter_append:
  "stateAfter cb (xs @ ys) st = stateAfter cb ys (stateAfter cb xs st)"
  by (simp add: stateAfter_def callbackRuns_add)

lemma stateAfter_Nil: "stateAfter cb [] st = st"
  by (simp add: stateAfter_def callbackRuns_def split: option.splits)

lemma serialize_stateAfter:
  "snd (serializeTree h cb n st) = stateAfter cb (transcodedFiles n) st"
  "snd (serializeChildren h cb cs st) =
     stateAfter cb (List.map_filter sourceOf (concat (map nodes cs))) st"
  by (simp_all add: serialize_state stateAfter_def)

lemma transcodeStep_promise_run:
  "transcodeStep_promise b cb (fn_type n) (fn_file n) st =
     (if list_all (settles b) (List.map_filter sourceOf [n])
      then Returns (fst (transcodeStep (host.truncate b) cb (fn_type n) (fn_file n) st))
      else NeverReturns,
      stateAfter cb (takeWhile (settles b) (List.map_filter sourceOf [n])) st)"
proof (cases "sourceOf n")
  case None
  then show ?thesis
    by (auto simp: transcodeStep_promise_def transcodeStep_def sourceOf_def List.map_filter_def
        stateAfter_Nil split: node_type.splits option.splits if_splits)
next
  case (Some f)
  then have tf: "fn_type n = TFile" "fn_file n = Some f"
    by (simp_all add: sourceOf_def split: if_splits)
  show ?thesis
  proof (cases "settles b f")
    case True
    show ?thesis
      using Some tf True promise_settled [OF True]
      by (simp add: transcodeStep_promise_def transcodeStep_def List.map_filter_def Let_def
          stateAfter_def callbackRuns_def progressEvents_def split: option.splits)
  next
    case False
    then have "processImageForExport_promise b f = Pending" by (simp add: settles_def)
    then show ?thesis
      using Some tf False
      by (simp add: transcodeStep_promise_def List.map_filter_def stateAfter_Nil)
  qed
qed

lemma takeWhile_append_all:
  "takeWhile P (xs @ ys) = (if list_all P xs then xs @ takeWhile P ys else takeWhile P xs)"
  by (induction xs) simp_all

lemma takeWhile_all: "list_all P xs \<Longrightarrow> takeWhile P xs = xs"
  by (induction xs) simp_all

lemma serialize_promise_run:
  "serializeTree_promise b cb n st =
     (if list_all (settles b) (transcodedFiles n)
      then Returns (fst (serializeTree (host.truncate b) cb n st)) else NeverReturns,
      stateAfter cb (takeWhile (settles b) (transcodedFiles n)) st)"
  "serializeChildren_promise b cb cs st =
     (if list_all (settles b) (List.map_filter sourceOf (concat (map nodes cs)))
      then Returns (fst (serializeChildren (host.truncate b) cb cs st)) else NeverReturns,
      stateAfter cb (takeWhile (settles b) (List.map_filter sourceOf (concat (map nodes cs)))) st)"
proof (induction b cb n st and b cb cs st
    rule: serializeTree_promise_serializeChildren_promise.induct)
  case (1 b onProgress i nm p t cs f u d st)
  let ?n = "FileNode i nm p t cs f u d"
  let ?F0 = "List.map_filter sourceOf [?n]"
  let ?F1 = "List.map_filter sourceOf (concat (map nodes cs))"
  let ?h = "host.truncate b"
  let ?th = "fst (transcodeStep ?h onProgress t f st)"
  let ?st1 = "stateAfter onProgress ?F0 st"
  have unf: "transcodedFiles ?n = ?F0 @ ?F1"
    by (simp add: transcodedFiles_def List.map_filter_def)
  have step: "transcodeStep_promise b onProgress t f st =
      (if list_all (settles b) ?F0 then Returns ?th else NeverReturns,
       stateAfter onProgress (takeWhile (settles b) ?F0) st)"
    using transcodeStep_promise_run [of b onProgress ?n st] by simp
  show ?case
  proof (cases "list_all (settles b) ?F0")
    case True
    have s1: "transcodeStep_promise b onProgress t f st = (Returns ?th, ?st1)"
      using step True by (simp only: takeWhile_all [OF True] if_True)
    have old: "snd (transcodeStep ?h onProgress t f st) = ?st1"
      using transcodeStep_state [of ?h onProgress ?n st] by (simp add: stateAfter_def)
    have ch: "serializeChildren_promise b onProgress cs ?st1 =
        (if list_all (settles b) ?F1
         then Returns (fst (serializeChildren ?h onProgress cs ?st1)) else NeverReturns,
         stateAfter onProgress (takeWhile (settles b) ?F1) ?st1)"
      using "1.IH" [OF s1 [symmetric] refl] .
    have new: "serializeTree_promise b onProgress ?n st =
        (if list_all (settles b) ?F1
         then Returns (SerializedNode i nm p t (fst (serializeChildren ?h onProgress cs ?st1)) ?th d)
         else NeverReturns,
         stateAfter onProgress (takeWhile (settles b) ?F1) ?st1)"
      by (simp only: serializeTree_promise.simps s1 prod.case run.case ch)
         (cases "list_all (settles b) ?F1"; simp only: prod.case run.case if_True if_False)
    have res: "fst (serializeTree ?h onProgress ?n st) =
        SerializedNode i nm p t (fst (serializeChildren ?h onProgress cs ?st1)) ?th d"
      using old by (simp add: case_prod_beta)
    have tw: "takeWhile (settles b) (?F0 @ ?F1) = ?F0 @ takeWhile (settles b) ?F1"
      using True by (simp only: takeWhile_append_all if_True)
    have la: "list_all (settles b) (?F0 @ ?F1) = list_all (settles b) ?F1"
      using True by simp
    show ?thesis
      by (simp only: unf new res tw la stateAfter_append)
  next
    case False
    have s1: "transcodeStep_promise b onProgress t f st =
        (NeverReturns, stateAfter onProgress (takeWhile (settles b) ?F0) st)"
      using step False by (simp only: if_False)
    have new: "serializeTree_promise b onProgress ?n st =
        (NeverReturns, stateAfter onProgress (takeWhile (settles b) ?F0) st)"
      by (simp only: serializeTree_promise.simps s1 prod.case run.case)
    have tw: "takeWhile (settles b) (?F0 @ ?F1) = takeWhile (settles b) ?F0"
      using False by (simp only: takeWhile_append_all if_False)
    have la: "list_all (settles b) (?F0 @ ?F1) = False"
      using False by simp
    show ?thesis
      by (simp only: unf new tw la if_False)
  qed
next
  case (2 b onProgress st)
  show ?case by (simp add: List.map_filter_def stateAfter_Nil)
next
  case (3 b onProgress child rest st)
  let ?F0 = "transcodedFiles child"
  let ?F1 = "List.map_filter sourceOf (concat (map nodes rest))"
  let ?h = "host.truncate b"
  let ?s = "fst (serializeTree ?h onProgress child st)"
  let ?st1 = "stateAfter onProgress ?F0 st"
  have unf: "List.map_filter sourceOf (concat (map nodes (child # rest))) = ?F0 @ ?F1"
    by (simp add: transcodedFiles_def map_filter_append)
  have step: "serializeTree_promise b onProgress child st =
      (if list_all (settles b) ?F0 then Returns ?s else NeverReturns,
       stateAfter onProgress (takeWhile (settles b) ?F0) st)"
    using "3.IH"(1) .
  show ?case
  proof (cases "list_all (settles b) ?F0")
    case True
    have s1: "serializeTree_promise b onProgress child st = (Returns ?s, ?st1)"
      using step True by (simp only: takeWhile_all [OF True] if_True)
    have old: "snd (serializeTree ?h onProgress child st) = ?st1"
      by (rule serialize_stateAfter(1))
    have ch: "serializeChildren_promise b onProgress rest ?st1 =
        (if list_all (settles b) ?F1
         then Returns (fst (serializeChildren ?h onProgress rest ?st1)) else NeverReturns,
         stateAfter onProgress (takeWhile (settles b) ?F1) ?st1)"
      using "3.IH"(2) [OF s1 [symmetric] refl] .
    have new: "serializeChildren_promise b onProgress (child # rest) st =
        (if list_all (settles b) ?F1
         then Returns (?s # fst (serializeChildren ?h onProgress rest ?st1))
         else NeverReturns,
         stateAfter onProgress (takeWhile (settles b) ?F1) ?st1)"
      by (simp only: serializeChildren_promise.simps s1 prod.case run.case ch)
         (cases "list_all (settles b) ?F1"; simp only: prod.case run.case if_True if_False)
    have res: "fst (serializeChildren ?h onProgress (child # rest) st) =
        ?s # fst (serializeChildren ?h onProgress rest ?st1)"
      using old by (simp add: case_prod_beta)
    have tw: "takeWhile (settles b) (?F0 @ ?F1) = ?F0 @ takeWhile (settles b) ?F1"
      using True by (simp only: takeWhile_append_all if_True)
    have la: "list_all (settles b) (?F0 @ ?F1) = list_all (settles b) ?F1"
      using True by simp
    show ?thesis
      by (simp only: unf new res tw la stateAfter_append)
  next
    case False
    have s1: "serializeTree_promise b onProgress child st =
        (NeverReturns, stateAfter onProgress (takeWhile (settles b) ?F0) st)"
      using step False by (simp only: if_False)
    have new: "serializeChildren_promise b onProgress (child # rest) st =
        (NeverReturns, stateAfter onProgress (takeWhile (settles b) ?F0) st)"
      by (simp only: serializeChildren_promise.simps s1 prod.case run.case)
    have tw: "takeWhile (settles b) (?F0 @ ?F1) = takeWhile (settles b) ?F0"
      using False by (simp only: takeWhile_append_all if_False)
    have la: "list_all (settles b) (?F0 @ ?F1) = False"
      using False by simp
    show ?thesis
      by (simp only: unf new tw la if_False)
  qed
qed

lemma handled_failures_settle:
  "transcode (host.truncate b) f \<in> {Raised, ReadFailed, DecodeFailed} \<Longrightarrow> settles b f"
  by (auto simp: settles_def processImageForExport_promise_def transcode_def host.truncate_def
      split: read_result.splits option.splits prod.splits if_splits)

lemma walk_returns_when_settled:
  "list_all (settles b) (transcodedFiles n) \<Longrightarrow>
   serializeTree_promise b cb n st =
     (Returns (fst (serializeTree (host.truncate b) cb n st)),
      snd (serializeTree (host.truncate b) cb n st))"
  by (simp add: serialize_promise_run(1) serialize_stateAfter(1) takeWhile_all)

lemma pending_transcode_stalls_walk:
  "f \<in> set (transcodedFiles n) \<Longrightarrow> \<not> settles b f \<Longrightarrow>
   fst (serializeTree_promise b cb n st) = NeverReturns \<and>
   Transcoded f \<notin> set (snd (snd (serializeTree_promise b cb n (s, []))))"
proof -
  assume f: "f \<in> set (transcodedFiles n)" and ns: "\<not> settles b f"
  have a: "\<not> list_all (settles b) (transcodedFiles n)"
    using f ns by (auto simp: list_all_iff)
  have ev: "Transcoded f \<in> set (concat (map (progressEvents cb) fs)) \<Longrightarrow> f \<in> set fs" for fs
    by (induction fs) (auto simp: progressEvents_def split: option.splits)
  have "f \<notin> set (takeWhile (settles b) (transcodedFiles n))"
    using ns by (auto dest: set_takeWhileD)
  then have b: "Transcoded f \<notin> set (snd (snd (serializeTree_promise b cb n (s, []))))"
    using ev [of "takeWhile (settles b) (transcodedFiles n)"]
    by (auto simp: serialize_promise_run(1) stateAfter_def)
  show ?thesis using a b by (simp add: serialize_promise_run(1))
qed

lemma vector_tree:
  "fst (parseFilesToTree vectorScene) =
     FileNode ''root'' ''Root'' [] TFolder
       [FileNode ''/photos'' ''photos'' ''photos'' TFolder
          [FileNode ''photos/a.svg'' ''a.svg'' ''photos/a.svg'' TFile []
             (Some svgFile) (Some (ObjectURL ''<svg/>'')) (Some False),
           FileNode ''photos/sub'' ''sub'' ''photos/sub'' TFolder
             [FileNode ''photos/sub/b.png'' ''b.png'' ''photos/sub/b.png'' TFile []
                (Some (fileAt ''photos/sub/b.png'' ''b.png'' ''image/png''))
                (Some (ObjectURL [])) (Some False)]
             None None None]
          None None None]
       None None None"
  by (simp add: parseFilesToTree_def emptyRoot_def ingest_def
      vectorScene_def svgFile_def fileAt_def startsWith_def pathPartsOf_def newFolderNode_def
      newFileNode_def isFolderNamed_def Let_def case_prod_beta createObjectURL_def)

lemma exportSize_none: "exportSize 0 0 = (0, 0)"
  by (simp add: exportSize_def SHORT_EDGE_TARGET_def Let_def)

lemma stuck_svg: "processImageForExport_promise stuckBrowser svgFile = Pending"
  by (simp add: processImageForExport_promise_def stuckBrowser_def svgFile_def exportSize_small)

lemma stuck_png:
  "processImageForExport_promise stuckBrowser (fileAt ''photos/sub/b.png'' ''b.png'' ''image/png'') =
     Settled (Normal ''data:image/jpeg;base64,QUJD'')"
  by (simp add: processImageForExport_promise_def stuckBrowser_def fileAt_def exportSize_small)

lemma blank_svg: "processImageForExport blankHost svgFile = Normal ''data:,''"
  by (simp add: processImageForExport_def blankHost_def svgFile_def exportSize_none)

lemma blank_png:
  "processImageForExport blankHost (fileAt ''photos/sub/b.png'' ''b.png'' ''image/png'') =
     Normal ''data:image/jpeg;base64,QUJD''"
  by (simp add: processImageForExport_def blankHost_def fileAt_def exportSize_small)

text \<open>
  C6 fails on the code at an encode error. In the tree of photos/a.svg and
  photos/sub/b.png, in a browser where encoding the canvas of a.svg raises, the promise of
  the transcode of a.svg stays pending and the walk never returns: there is no output,
  the callback is never called and b.png, whose own transcode would succeed, is never
  transcoded. And where the encoder fails
  without raising, answering \<^verbatim>\<open>data:,\<close> for a canvas without pixels, the walk returns with
  that text as the payload of a.svg, not the empty one. The failures that settle the
  promise (\<^verbatim>\<open>reader.onerror\<close>, \<^verbatim>\<open>img.onerror\<close>, a null context) resolve it with the empty
  text; the encode step is the one case without such a path.
\<close>

theorem encode_failure_stalls_walk:
  "processImageForExport_promise stuckBrowser svgFile = Pending \<and>
   serializeTree_promise stuckBrowser (Some countProcessed)
       (fst (parseFilesToTree vectorScene)) (0, []) =
     (NeverReturns, (0, [])) \<and>
   processImageForExport_promise stuckBrowser (fileAt ''photos/sub/b.png'' ''b.png'' ''image/png'') =
     Settled (Normal ''data:image/jpeg;base64,QUJD'') \<and>
   processImageForExport blankHost svgFile = Normal ''data:,'' \<and>
   serializeTree blankHost (Some countProcessed) (fst (parseFilesToTree vectorScene)) (0, []) =
     (SerializedNode ''root'' ''Root'' [] TFolder
        [SerializedNode ''/photos'' ''photos'' ''photos'' TFolder
           [SerializedNode ''photos/a.svg'' ''a.svg'' ''photos/a.svg'' TFile []
              (Some ''data:,'') (Some False),
            SerializedNode ''photos/sub'' ''sub'' ''photos/sub'' TFolder
              [SerializedNode ''photos/sub/b.png'' ''b.png'' ''photos/sub/b.png'' TFile []
                 (Some ''data:image/jpeg;base64,QUJD'') (Some False)]
              None None]
           None None]
        None None,
      (2, [Transcoded svgFile, Progress,
           Transcoded (fileAt ''photos/sub/b.png'' ''b.png'' ''image/png''), Progress]))"
proof -
  have a: "serializeTree_promise stuckBrowser (Some countProcessed)
       (fst (parseFilesToTree vectorScene)) (0, []) = (NeverReturns, (0, []))"
    by (simp add: vector_tree transcodeStep_promise_def stuck_svg)
  have b: "serializeTree blankHost (Some countProcessed) (fst (parseFilesToTree vectorScene)) (0, []) =
     (SerializedNode ''root'' ''Root'' [] TFolder
        [SerializedNode ''/photos'' ''photos'' ''photos'' TFolder
           [SerializedNode ''photos/a.svg'' ''a.svg'' ''photos/a.svg'' TFile []
              (Some ''data:,'') (Some False),
            SerializedNode ''photos/sub'' ''sub'' ''photos/sub'' TFolder
              [SerializedNode ''photos/sub/b.png'' ''b.png'' ''photos/sub/b.png'' TFile []
                 (Some ''data:image/jpeg;base64,QUJD'') (Some False)]
              None None]
           None None]
        None None,
      (2, [Transcoded svgFile, Progress,
           Transcoded (fileAt ''photos/sub/b.png'' ''b.png'' ''image/png''), Progress]))"
    by (simp add: vector_tree transcodeStep_def blank_svg blank_png countProcessed_def)
  show ?thesis
    by (rule conjI [OF stuck_svg conjI [OF a conjI [OF stuck_png conjI [OF blank_svg b]]]])
qed

section \<open>The round trip\<close>

lemma payload_encoded:
  "payloadOf h n = Some payload \<Longrightarrow> payload \<noteq> [] \<Longrightarrow> \<exists>src w ht. payload = toDataURL h src w ht"
  by (simp add: payloadOf_transcode transcode_def
      split: if_splits option.splits outcome.splits read_result.splits prod.splits) blast+

lemma payload_decodes:
  assumes "decodablePayloads h" "payloadOf h n = Some payload" "payload \<noteq> []"
  shows "\<exists>blob. base64ToBlob h payload = Normal blob"
proof -
  from payload_encoded [OF assms(2,3)] obtain src w ht where "payload = toDataURL h src w ht"
    by blast
  with assms(1,3) have "base64ToBlob h payload \<noteq> Throw"
    by (auto simp: decodablePayloads_def)
  then show ?thesis by (cases "base64ToBlob h payload") auto
qed

lemma round_trip_general:
  assumes dec: "decodablePayloads h"
  shows "\<exists>r pushed. deserializeTree h (fst (serializeTree h cb n st)) = Normal (r, pushed) \<and>
           outlineOf r = flagDefaulted (outlineOf n)"
    and "\<exists>rs pushed. deserializeChildren h (fst (serializeChildren h cb cs st)) = Normal (rs, pushed) \<and>
           map outlineOf rs = map (\<lambda>c. flagDefaulted (outlineOf c)) cs"
  using dec
proof (induction h cb n st and h cb cs st rule: serializeTree_serializeChildren.induct)
  case (1 h onProgress i nm p t cs f u d st)
  let ?n = "FileNode i nm p t cs f u d"
  let ?th = "fst (transcodeStep h onProgress t f st)"
  let ?st1 = "snd (transcodeStep h onProgress t f st)"
  let ?ss = "fst (serializeChildren h onProgress cs ?st1)"
  have th: "?th = payloadOf h ?n"
    using transcodeStep_payload [of h onProgress ?n st] by simp
  have ser: "fst (serializeTree h onProgress ?n st) = SerializedNode i nm p t ?ss ?th d"
    by (simp add: case_prod_beta)
  obtain rs pushed where ch: "deserializeChildren h ?ss = Normal (rs, pushed)"
    and out: "map outlineOf rs = map (\<lambda>c. flagDefaulted (outlineOf c)) cs"
    using "1.IH" [of "(?th, ?st1)" ?th ?st1] "1.prems" by auto
  have blob: "\<exists>b. (if t = TFile \<and> ?th \<noteq> None \<and> ?th \<noteq> Some []
            then (case base64ToBlob h (the ?th) of
                    Throw \<Rightarrow> Throw
                  | Normal blob \<Rightarrow> Normal (Some blob))
            else Normal None) = Normal b"
  proof (cases "t = TFile \<and> ?th \<noteq> None \<and> ?th \<noteq> Some []")
    case True
    then obtain payload where p: "?th = Some payload" "payload \<noteq> []" by auto
    from payload_decodes [OF "1.prems" p(1) [unfolded th] p(2)]
    obtain b where "base64ToBlob h payload = Normal b" by blast
    with True p show ?thesis by simp
  next
    case False
    then show ?thesis by auto
  qed
  then obtain b where b: "(if t = TFile \<and> ?th \<noteq> None \<and> ?th \<noteq> Some []
            then (case base64ToBlob h (the ?th) of
                    Throw \<Rightarrow> Throw
                  | Normal blob \<Rightarrow> Normal (Some blob))
            else Normal None) = Normal b" ..
  have "deserializeTree h (SerializedNode i nm p t ?ss ?th d) =
      Normal (FileNode i nm p t rs (map_option (\<lambda>b. newFile b nm) b) (map_option createObjectURL b)
                (Some (d = Some True)),
              (if b = None then [] else
                 [FileNode i nm p t rs (map_option (\<lambda>b. newFile b nm) b)
                    (map_option createObjectURL b) (Some (d = Some True))]) @ pushed)"
    unfolding deserializeTree.simps b ch by (simp add: Let_def)
  moreover have "outlineOf (FileNode i nm p t rs (map_option (\<lambda>b. newFile b nm) b)
      (map_option createObjectURL b) (Some (d = Some True))) = flagDefaulted (outlineOf ?n)"
    using out by (cases d) auto
  ultimately show ?case
    unfolding ser by blast
next
  case (2 h onProgress st)
  show ?case by simp
next
  case (3 h onProgress child rest st)
  let ?r = "serializeTree h onProgress child st"
  obtain r pushed where a: "deserializeTree h (fst ?r) = Normal (r, pushed)"
    "outlineOf r = flagDefaulted (outlineOf child)"
    using "3.IH"(1) "3.prems" by blast
  obtain rs pushed' where b:
    "deserializeChildren h (fst (serializeChildren h onProgress rest (snd ?r))) = Normal (rs, pushed')"
    "map outlineOf rs = map (\<lambda>c. flagDefaulted (outlineOf c)) rest"
    using "3.IH"(2) [of ?r "fst ?r" "snd ?r"] "3.prems" by auto
  show ?case
    using a b by (simp add: case_prod_beta)
qed

text \<open>
  C1, as amended. In a browser whose payloads decode, deserializing the output of the
  serializer returns a tree (it does not raise) with the outline of the tree that was
  serialized, an absent flag read as false: the same id, name, path and type at every
  node, the children in the same order, the same flag wherever the original has one (on
  every file node of a built tree), and the flag false on a folder node that the builder
  made without one. This holds for every tree, so for every tree of the Ingestion Builder.
\<close>

theorem round_trip_keeps_outline:
  assumes "decodablePayloads h"
  shows "(\<exists>r pushed. deserializeTree h (fst (serializeTree h cb n st)) = Normal (r, pushed) \<and>
            outlineOf r = flagDefaulted (outlineOf n)) \<and>
         (\<exists>r pushed.
            deserializeTree h (fst (serializeTree h cb (fst (parseFilesToTree files)) st)) =
              Normal (r, pushed) \<and>
            outlineOf r = flagDefaulted (outlineOf (fst (parseFilesToTree files))))"
proof -
  have any: "\<exists>r pushed. deserializeTree h (fst (serializeTree h cb t st)) = Normal (r, pushed) \<and>
      outlineOf r = flagDefaulted (outlineOf t)" for t
    using round_trip_general(1) [OF assms] .
  show ?thesis
    by (rule conjI [OF any [of n] any [of "fst (parseFilesToTree files)"]])
qed

lemma flaky_decodes:
  "base64ToBlob flakyHost ''data:image/jpeg;base64,QUJD'' =
     Normal \<lparr>blob_bytes = ''ABC'', blob_type = ''image/jpeg''\<rparr>"
  by (simp add: base64ToBlob_def flakyHost_def)

lemma flaky_decodable: "decodablePayloads flakyHost"
  unfolding decodablePayloads_def
proof (intro allI disjI2)
  fix src w ht
  have "toDataURL flakyHost src w ht = ''data:image/jpeg;base64,QUJD''"
    by (simp add: flakyHost_def)
  then show "base64ToBlob flakyHost (toDataURL flakyHost src w ht) \<noteq> Throw"
    by (simp add: flaky_decodes)
qed

lemma scene_round_trip:
  "deserializeTree flakyHost
     (fst (serializeTree flakyHost (Some countProcessed) (fst (parseFilesToTree sceneFiles)) (0, []))) =
   Normal (sceneRestored,
     [FileNode ''photos/sub/b.png'' ''b.png'' ''photos/sub/b.png'' TFile []
        (Some \<lparr>blob_bytes = ''ABC'', blob_type = ''image/jpeg'', file_name = ''b.png'',
                webkitRelativePath = []\<rparr>)
        (Some (ObjectURL ''ABC'')) (Some False)])"
  by (simp add: scene_snapshot flaky_decodes sceneRestored_def newFile_def createObjectURL_def
      Let_def)

theorem round_trip_keeps_outline_witness:
  "base64ToBlob flakyHost ''data:image/jpeg;base64,QUJD'' =
     Normal \<lparr>blob_bytes = ''ABC'', blob_type = ''image/jpeg''\<rparr> \<and>
   (\<exists>r pushed.
      deserializeTree flakyHost
        (fst (serializeTree flakyHost (Some countProcessed) (fst (parseFilesToTree sceneFiles))
           (0, []))) = Normal (r, pushed) \<and>
      outlineOf r = flagDefaulted (outlineOf (fst (parseFilesToTree sceneFiles)))) \<and>
   flagDefaulted (outlineOf (fst (parseFilesToTree sceneFiles))) =
     Outline ''root'' ''Root'' [] TFolder (Some False)
       [Outline ''/photos'' ''photos'' ''photos'' TFolder (Some False)
          [Outline ''photos/a.png'' ''a.png'' ''photos/a.png'' TFile (Some False) [],
           Outline ''photos/sub'' ''sub'' ''photos/sub'' TFolder (Some False)
             [Outline ''photos/sub/b.png'' ''b.png'' ''photos/sub/b.png'' TFile (Some False) []]]]"
proof -
  have a: "\<exists>r pushed.
      deserializeTree flakyHost
        (fst (serializeTree flakyHost (Some countProcessed) (fst (parseFilesToTree sceneFiles))
           (0, []))) = Normal (r, pushed) \<and>
      outlineOf r = flagDefaulted (outlineOf (fst (parseFilesToTree sceneFiles)))"
    using round_trip_keeps_outline [OF flaky_decodable, of "Some countProcessed"
        "fst (parseFilesToTree sceneFiles)" "(0, [])" sceneFiles]
    by (rule conjunct2)
  have b: "flagDefaulted (outlineOf (fst (parseFilesToTree sceneFiles))) =
     Outline ''root'' ''Root'' [] TFolder (Some False)
       [Outline ''/photos'' ''photos'' ''photos'' TFolder (Some False)
          [Outline ''photos/a.png'' ''a.png'' ''photos/a.png'' TFile (Some False) [],
           Outline ''photos/sub'' ''sub'' ''photos/sub'' TFolder (Some False)
             [Outline ''photos/sub/b.png'' ''b.png'' ''photos/sub/b.png'' TFile (Some False) []]]]"
    by (simp add: scene_tree)
  show ?thesis
    by (rule conjI [OF flaky_decodes conjI [OF a b]])
qed

text \<open>
  The claim as stated fails: the root of an ingested tree has no \<^verbatim>\<open>isDeleted\<close>, and the
  root that comes back has \<^verbatim>\<open>isDeleted = false\<close>.
\<close>

theorem round_trip_changes_folder_flag:
  "deserializeTree flakyHost
     (fst (serializeTree flakyHost (Some countProcessed) (fst (parseFilesToTree sceneFiles)) (0, []))) =
   Normal (sceneRestored,
     [FileNode ''photos/sub/b.png'' ''b.png'' ''photos/sub/b.png'' TFile []
        (Some \<lparr>blob_bytes = ''ABC'', blob_type = ''image/jpeg'', file_name = ''b.png'',
                webkitRelativePath = []\<rparr>)
        (Some (ObjectURL ''ABC'')) (Some False)]) \<and>
   fn_isDeleted (fst (parseFilesToTree sceneFiles)) = None \<and>
   fn_isDeleted sceneRestored = Some False \<and>
   outlineOf sceneRestored \<noteq> outlineOf (fst (parseFilesToTree sceneFiles))"
  by (simp add: scene_round_trip) (simp add: scene_tree sceneRestored_def)

section \<open>Properties of the import\<close>

lemma deserialize_null: "deserializeTree_js h Null = Throw"
  by simp

lemma deserialize_bad_children:
  "truthy (getProp v ''children'') \<Longrightarrow> \<forall>cs. getProp v ''children'' \<noteq> Array cs \<Longrightarrow>
   deserializeTree_js h v = Throw"
  by (cases "getProp v ''children''") (auto split: completion.splits if_splits)

lemma deserialize_bad_thumbnail:
  "v \<noteq> Undefined \<Longrightarrow> v \<noteq> Null \<Longrightarrow> getProp v ''type'' = String ''file'' \<Longrightarrow>
   truthy (getProp v ''thumbnailData'') \<Longrightarrow>
   decodeThumbnail h (getProp v ''thumbnailData'') = Throw \<Longrightarrow>
   deserializeTree_js h v = Throw"
  by simp

lemma deserialize_empty_object:
  "deserializeTree_js h (Object []) =
     Normal (LiveNode Undefined Undefined Undefined Undefined [] None None (Bool False), [])"
  by (simp add: getProp_def truthy_def)

lemma getProp_stringify:
  "getProp (JSON_stringify (SerializedNode i nm p t cs th d)) ''id'' = String i"
  "getProp (JSON_stringify (SerializedNode i nm p t cs th d)) ''name'' = String nm"
  "getProp (JSON_stringify (SerializedNode i nm p t cs th d)) ''path'' = String p"
  "getProp (JSON_stringify (SerializedNode i nm p t cs th d)) ''type'' = String (typeName t)"
  "getProp (JSON_stringify (SerializedNode i nm p t cs th d)) ''children'' =
     Array (map JSON_stringify cs)"
  "getProp (JSON_stringify (SerializedNode i nm p t cs th d)) ''isDeleted'' =
     (case d of None \<Rightarrow> Undefined | Some b \<Rightarrow> Bool b)"
  "getProp (JSON_stringify (SerializedNode i nm p t cs th d)) ''thumbnailData'' =
     (case th of None \<Rightarrow> Undefined | Some payload \<Rightarrow> String payload)"
  by (simp_all add: getProp_def split: option.splits)

lemma typeName_file: "typeName t = ''file'' \<longleftrightarrow> t = TFile"
  by (cases t) (simp_all add: typeName_def)

lemma stringify_not_null:
  "JSON_stringify s \<noteq> Undefined" "JSON_stringify s \<noteq> Null"
  by (cases s; simp)+

text \<open>
  On a document the serializer wrote, the deserializer of the import does what the typed
  one does.
\<close>

lemma deserializeTree_js_refines:
  "deserializeTree_js h (JSON_stringify s) =
     (case deserializeTree h s of
        Throw \<Rightarrow> Throw
      | Normal (r, pushed) \<Rightarrow> Normal (live r, map live pushed))"
  "deserializeChildren_js h (map JSON_stringify ss) =
     (case deserializeChildren h ss of
        Throw \<Rightarrow> Throw
      | Normal (rs, pushed) \<Rightarrow> Normal (map live rs, map live pushed))"
proof (induction h s and h ss rule: deserializeTree_deserializeChildren.induct)
  case (1 h i nm p t cs th d)
  let ?s = "SerializedNode i nm p t cs th d"
  have blob: "(if getProp (JSON_stringify ?s) ''type'' = String ''file'' \<and>
                  truthy (getProp (JSON_stringify ?s) ''thumbnailData'')
               then (case decodeThumbnail h (getProp (JSON_stringify ?s) ''thumbnailData'') of
                       Throw \<Rightarrow> Throw
                     | Normal blob \<Rightarrow> Normal (Some blob))
               else Normal None) =
              (if t = TFile \<and> th \<noteq> None \<and> th \<noteq> Some []
               then (case base64ToBlob h (the th) of
                       Throw \<Rightarrow> Throw
                     | Normal blob \<Rightarrow> Normal (Some blob))
               else Normal None)"
    by (cases th)
       (simp_all add: getProp_stringify typeName_file truthy_def decodeThumbnail_def
          del: JSON_stringify.simps)
  let ?B = "if t = TFile \<and> th \<noteq> None \<and> th \<noteq> Some []
            then (case base64ToBlob h (the th) of
                    Throw \<Rightarrow> Throw
                  | Normal blob \<Rightarrow> Normal (Some blob))
            else Normal None"
  show ?case
  proof (cases ?B)
    case Throw
    have "deserializeTree h ?s = Throw"
      unfolding deserializeTree.simps Throw by simp
    moreover have "deserializeTree_js h (JSON_stringify ?s) = Throw"
      apply (subst deserializeTree_js.simps)
      apply (simp only: blob Throw stringify_not_null simp_thms if_False)
      apply simp
      done
    ultimately show ?thesis by simp
  next
    case (Normal b)
    have kids: "(if truthy (getProp (JSON_stringify ?s) ''children'')
               then (case getProp (JSON_stringify ?s) ''children'' of
                       Array cs \<Rightarrow> deserializeChildren_js h cs
                     | _ \<Rightarrow> Throw)
               else Normal ([], [])) =
              (case deserializeChildren h cs of
                 Throw \<Rightarrow> Throw
               | Normal (rs, pushed) \<Rightarrow> Normal (map live rs, map live pushed))"
      using "1.IH" [OF Normal]
      by (simp add: getProp_stringify truthy_def del: JSON_stringify.simps)
    have typed: "deserializeTree h ?s =
        (case deserializeChildren h cs of
           Throw \<Rightarrow> Throw
         | Normal (children, pushedBelow) \<Rightarrow>
             Normal (FileNode i nm p t children (map_option (\<lambda>b. newFile b nm) b)
                       (map_option createObjectURL b) (Some (d = Some True)),
                     (if b = None then [] else
                        [FileNode i nm p t children (map_option (\<lambda>b. newFile b nm) b)
                           (map_option createObjectURL b) (Some (d = Some True))]) @ pushedBelow))"
      unfolding deserializeTree.simps Normal
      by (simp add: Let_def split: completion.splits)
    show ?thesis
      apply (subst deserializeTree_js.simps)
      apply (simp only: blob kids Normal typed stringify_not_null simp_thms if_False)
      apply (cases b; cases d)
      apply (simp_all add: getProp_stringify truthy_def Let_def newFile_def createObjectURL_def
          del: JSON_stringify.simps split: completion.splits)
      done
  qed
next
  case (2 h)
  show ?case by simp
next
  case (3 h child rest)
  show ?case
    using "3.IH" by (simp split: completion.splits prod.splits)
qed

text \<open>
  C8, as amended. A text that is not valid JSON fails the import as a whole, with the
  single alert "Invalid snapshot file." and no change to the root, the current node, the
  flat list or the statistics. So does every document on which the deserializer raises,
  and it raises on \<^verbatim>\<open>null\<close>, on a node whose \<^verbatim>\<open>children\<close> is truthy and not an array, and on
  a file node whose non-empty \<^verbatim>\<open>thumbnailData\<close> does not decode. In every other case the
  whole restored tree is adopted and there is no alert: nothing checks the shape of the
  document, and the empty object is restored as a node whose fields are undefined.
\<close>

theorem import_is_all_or_nothing:
  "(JSON_parse json = None \<longrightarrow> invalidSnapshot st (handleImport JSON_parse h json st)) \<and>
   (JSON_parse json = Some v \<and> deserializeTree_js h v = Throw \<longrightarrow>
      invalidSnapshot st (handleImport JSON_parse h json st)) \<and>
   (JSON_parse json = Some v \<and> deserializeTree_js h v = Normal (r, imgs) \<longrightarrow>
      adopted r imgs st (handleImport JSON_parse h json st)) \<and>
   deserializeTree_js h Null = Throw \<and>
   (truthy (getProp v ''children'') \<and> (\<forall>cs. getProp v ''children'' \<noteq> Array cs) \<longrightarrow>
      deserializeTree_js h v = Throw) \<and>
   (v \<noteq> Undefined \<and> v \<noteq> Null \<and> getProp v ''type'' = String ''file'' \<and>
    truthy (getProp v ''thumbnailData'') \<and>
    decodeThumbnail h (getProp v ''thumbnailData'') = Throw \<longrightarrow>
      deserializeTree_js h v = Throw) \<and>
   deserializeTree_js h (Object []) =
     Normal (LiveNode Undefined Undefined Undefined Undefined [] None None (Bool False), [])"
proof -
  have a: "invalidSnapshot st (handleImport JSON_parse h json st)" if "JSON_parse json = None"
    using that by (simp add: handleImport_def invalidSnapshot_def Let_def)
  have b: "invalidSnapshot st (handleImport JSON_parse h json st)"
    if "JSON_parse json = Some v" "deserializeTree_js h v = Throw"
    using that by (simp add: handleImport_def invalidSnapshot_def Let_def)
  have c: "adopted r imgs st (handleImport JSON_parse h json st)"
    if "JSON_parse json = Some v" "deserializeTree_js h v = Normal (r, imgs)"
    using that by (simp add: handleImport_def adopted_def Let_def)
  show ?thesis
    using a b c deserialize_null [of h] deserialize_bad_children [of v h]
      deserialize_bad_thumbnail [of v h] deserialize_empty_object [of h]
    by blast
qed

theorem import_is_all_or_nothing_witness:
  "parseSamples ''not json'' = None \<and>
   handleImport parseSamples flakyHost ''not json'' emptyWorkspace =
     emptyWorkspace\<lparr>alerts := [''Invalid snapshot file.'']\<rparr> \<and>
   invalidSnapshot emptyWorkspace (handleImport parseSamples flakyHost ''not json'' emptyWorkspace) \<and>
   parseSamples ''null'' = Some Null \<and>
   invalidSnapshot emptyWorkspace (handleImport parseSamples flakyHost ''null'' emptyWorkspace) \<and>
   parseSamples ''{\"children\":5}'' = Some (Object [(''children'', Number 5)]) \<and>
   deserializeTree_js flakyHost (Object [(''children'', Number 5)]) = Throw \<and>
   invalidSnapshot emptyWorkspace
     (handleImport parseSamples flakyHost ''{\"children\":5}'' emptyWorkspace)"
proof -
  have p: "parseSamples ''not json'' = None" "parseSamples ''null'' = Some Null"
    "parseSamples ''{\"children\":5}'' = Some (Object [(''children'', Number 5)])"
    by (simp_all add: parseSamples_def)
  have t: "truthy (getProp (Object [(''children'', Number 5)]) ''children'') \<and>
      (\<forall>cs. getProp (Object [(''children'', Number 5)]) ''children'' \<noteq> Array cs)"
    by (simp add: getProp_def truthy_def)
  have e: "handleImport parseSamples flakyHost ''not json'' emptyWorkspace =
     emptyWorkspace\<lparr>alerts := [''Invalid snapshot file.'']\<rparr>"
    by (simp add: handleImport_def p emptyWorkspace_def Let_def)
  note w1 = import_is_all_or_nothing [of parseSamples "''not json''" emptyWorkspace flakyHost Null]
  note w2 = import_is_all_or_nothing [of parseSamples "''null''" emptyWorkspace flakyHost Null]
  note w3 = import_is_all_or_nothing [of parseSamples "''{\"children\":5}''" emptyWorkspace
      flakyHost "Object [(''children'', Number 5)]"]
  have i1: "invalidSnapshot emptyWorkspace (handleImport parseSamples flakyHost ''not json'' emptyWorkspace)"
    using w1 p(1) by blast
  have i2: "invalidSnapshot emptyWorkspace (handleImport parseSamples flakyHost ''null'' emptyWorkspace)"
    using w2 p(2) by blast
  have th: "deserializeTree_js flakyHost (Object [(''children'', Number 5)]) = Throw"
    using w3 t by blast
  have i3: "invalidSnapshot emptyWorkspace
     (handleImport parseSamples flakyHost ''{\"children\":5}'' emptyWorkspace)"
    using w3 p(3) th by blast
  show ?thesis
    using p e i1 i2 th i3 by blast
qed

text \<open>
  The claim as stated fails: the document \<^verbatim>\<open>{}\<close> is valid JSON without the required
  shape, and the import adopts a root made from it, with no alert.
\<close>

theorem import_adopts_document_without_shape:
  "parseSamples ''{}'' = Some (Object []) \<and>
   \<not> hasNodeShape (Object []) \<and>
   handleImport parseSamples flakyHost ''{}'' emptyWorkspace =
     emptyWorkspace
       \<lparr>rootNode := Some (LiveNode Undefined Undefined Undefined Undefined [] None None (Bool False)),
        currentNode := Some (LiveNode Undefined Undefined Undefined Undefined [] None None (Bool False)),
        stats := \<lparr>totalFiles = 0, totalFolders = - 1, totalSize = 0\<rparr>\<rparr> \<and>
   alerts (handleImport parseSamples flakyHost ''{}'' emptyWorkspace) = [] \<and>
   \<not> invalidSnapshot emptyWorkspace (handleImport parseSamples flakyHost ''{}'' emptyWorkspace)"
  by (simp add: parseSamples_def handleImport_def deserialize_empty_object emptyWorkspace_def
      Let_def invalidSnapshot_def getProp_def truthy_def isString_def)

end
